theory Spec2Isabelle
  imports Complex_Main
begin

section \<open>Python strings\<close>

text \<open>
  A Python \<open>str\<close> is modelled as a \<open>string\<close> whose characters are the code points
  0..255. On that range \<open>lower\<close>, \<open>strip\<close>, \<open>splitlines\<close> and the regular
  expression class \<open>\s\<close> are written out as Python defines them. The one code point of
  the source outside that range, the dash of the label
  "Unclear - further questions required", is carried by its three UTF-8 bytes; it only
  ever occurs inside fixed labels that are compared for identity.
\<close>

definition code :: "char \<Rightarrow> nat" where
  "code c = of_char c"

definition lower_char :: "char \<Rightarrow> char" where
  "lower_char c =
     (let n = code c in
      if (65 \<le> n \<and> n \<le> 90) \<or> (192 \<le> n \<and> n \<le> 222 \<and> n \<noteq> 215)
      then char_of (n + 32) else c)"

definition lower :: "string \<Rightarrow> string" where
  "lower s = map lower_char s"

definition isspace :: "char \<Rightarrow> bool" where
  \<comment> \<open>\<open>str.isspace\<close> and the class \<open>\s\<close> of a \<open>str\<close> pattern.\<close>
  "isspace c =
     (let n = code c in
      (9 \<le> n \<and> n \<le> 13) \<or> (28 \<le> n \<and> n \<le> 32) \<or> n = 133 \<or> n = 160)"

definition strip :: "string \<Rightarrow> string" where
  "strip s = rev (dropWhile isspace (rev (dropWhile isspace s)))"

fun startswith :: "string \<Rightarrow> string \<Rightarrow> bool" where
  "startswith s [] = True"
| "startswith [] (p # ps) = False"
| "startswith (c # cs) (p # ps) = (c = p \<and> startswith cs ps)"

definition endswith :: "string \<Rightarrow> string \<Rightarrow> bool" where
  "endswith s p = startswith (rev s) (rev p)"

fun str_in :: "string \<Rightarrow> string \<Rightarrow> bool" where
  \<comment> \<open>\<open>e in s\<close>: \<open>e\<close> is a substring of \<open>s\<close>.\<close>
  "str_in e [] = (e = [])"
| "str_in e (c # cs) = (startswith (c # cs) e \<or> str_in e cs)"

fun replace_ne :: "char \<Rightarrow> string \<Rightarrow> string \<Rightarrow> string \<Rightarrow> string" where
  \<comment> \<open>\<open>s.replace(k # ks, v)\<close>: non-overlapping occurrences, leftmost first.\<close>
  "replace_ne k ks v [] = []"
| "replace_ne k ks v (c # cs) =
     (if startswith (c # cs) (k # ks) then v @ replace_ne k ks v (drop (length ks) cs)
      else c # replace_ne k ks v cs)"

definition replace :: "string \<Rightarrow> string \<Rightarrow> string \<Rightarrow> string" where
  "replace s k v =
     (case k of [] \<Rightarrow> v @ concat (map (\<lambda>c. c # v) s) | k0 # ks \<Rightarrow> replace_ne k0 ks v s)"

section \<open>rule\_based\_v2.py\<close>

definition SYNONYMS :: "(string \<times> string) list" where
  "SYNONYMS =
     [(''throwing up'', ''vomiting''),
      (''throw up'', ''vomiting''),
      (''belly ache'', ''abdominal pain''),
      (''stomach ache'', ''abdominal pain''),
      (''feverish'', ''fever''),
      (''breathless'', ''shortness of breath''),
      (''light headed'', ''lightheaded''),
      (''soar throat'', ''sore throat''),
      (''soar'', ''sore''),
      (''feaver'', ''fever''),
      (''temprature'', ''temperature'')]"

definition RULES :: "(string \<times> string list) list" where
  "RULES =
     [(''fever'', [''flu'', ''infection'']),
      (''sore throat'', [''throat infection'', ''cold'']),
      (''vomiting'', [''food poisoning'', ''gastroenteritis'']),
      (''cough'', [''cold'', ''bronchitis'']),
      (''headache'', [''migraine'', ''stress'']),
      (''fatigue'', [''anemia'', ''stress'', ''sleep deprivation''])]"

definition sub_non_alpha :: "string \<Rightarrow> string" where
  \<comment> \<open>\<open>re.sub(r"[^a-z\s]", " ", text)\<close>\<close>
  "sub_non_alpha s =
     map (\<lambda>c. if (97 \<le> code c \<and> code c \<le> 122) \<or> isspace c then c else CHR '' '') s"

definition normalize_text :: "string \<Rightarrow> string" where
  "normalize_text text =
     strip (sub_non_alpha (foldl (\<lambda>t (k, v). replace t k v) (lower text) SYNONYMS))"

definition infer_conditions :: "string \<Rightarrow> (string \<times> rat) list" where
  "infer_conditions symptom_text =
     (let text = normalize_text symptom_text in
      concat (map (\<lambda>(key, conditions).
                     if str_in key text then map (\<lambda>cond. (cond, 1)) conditions else [])
                  RULES))"

section \<open>JSON values and \<open>json.loads\<close>\<close>

text \<open>
  The exceptions of the program are values of one type. \<open>json.loads\<close> and the Pydantic
  constructor belong to libraries; they are modelled below from their documented
  behaviour. A float is an exact decimal, or one of the three special values that
  \<open>json.loads\<close> accepts (rounding to a double is not modelled).
\<close>

datatype error =
    ValueError string
  | JSONDecodeError
  | AttributeError
  | TypeError
  | IndexError
  | ValidationError
  | RuntimeError string
  | OSError
  | SqliteError

datatype pyfloat = Fin rat | PInf | NInf | NaN

datatype json =
    JNull
  | JBool bool
  | JInt int
  | JFloat pyfloat
  | JStr string
  | JArr "json list"
  | JObj "(string \<times> json) list"

fun dict_set :: "string \<Rightarrow> 'v \<Rightarrow> (string \<times> 'v) list \<Rightarrow> (string \<times> 'v) list" where
  \<comment> \<open>\<open>d[k] = v\<close>: a new key goes last, an old key keeps its place.\<close>
  "dict_set k v [] = [(k, v)]"
| "dict_set k v ((k', v') # d) = (if k = k' then (k, v) # d else (k', v') # dict_set k v d)"

definition dict_get :: "(string \<times> 'v) list \<Rightarrow> string \<Rightarrow> 'v option" where
  "dict_get d k = map_of d k"

datatype token =
    TLBrace | TRBrace | TLBrack | TRBrack | TColon | TComma
  | TStr string
  | TVal json

subsection \<open>Words: numbers and literals\<close>

definition is_digit :: "char \<Rightarrow> bool" where
  "is_digit c = (48 \<le> code c \<and> code c \<le> 57)"

definition digits_val :: "string \<Rightarrow> nat" where
  "digits_val ds = foldl (\<lambda>n c. 10 * n + (code c - 48)) 0 ds"

definition all_digits :: "string \<Rightarrow> bool" where
  "all_digits ds = (ds \<noteq> [] \<and> list_all is_digit ds)"

definition int_part_ok :: "string \<Rightarrow> bool" where
  \<comment> \<open>\<open>0|[1-9]\d*\<close>\<close>
  "int_part_ok ds = (all_digits ds \<and> (ds = ''0'' \<or> hd ds \<noteq> CHR ''0''))"

definition pow10 :: "int \<Rightarrow> rat" where
  "pow10 e = (if 0 \<le> e then 10 ^ nat e else 1 / 10 ^ nat (- e))"

definition parse_exp :: "string \<Rightarrow> int option" where
  \<comment> \<open>what follows \<open>e\<close> or \<open>E\<close>: \<open>[-+]?\d+\<close>\<close>
  "parse_exp s =
     (case s of
        [] \<Rightarrow> None
      | c # cs \<Rightarrow>
          if c = CHR ''-'' then (if all_digits cs then Some (- int (digits_val cs)) else None)
          else if c = CHR ''+'' then (if all_digits cs then Some (int (digits_val cs)) else None)
          else if all_digits s then Some (int (digits_val s)) else None)"

definition parse_number :: "string \<Rightarrow> json option" where
  \<comment> \<open>\<open>(-?(?:0|[1-9]\d*))(\.\d+)?([eE][-+]?\d+)?\<close>, the whole word\<close>
  "parse_number w =
     (let neg = (w \<noteq> [] \<and> hd w = CHR ''-'');
          u = (if neg then tl w else w);
          ip = takeWhile is_digit u;
          r1 = dropWhile is_digit u;
          has_frac = (r1 \<noteq> [] \<and> hd r1 = CHR ''.'');
          fp = (if has_frac then takeWhile is_digit (tl r1) else []);
          r2 = (if has_frac then dropWhile is_digit (tl r1) else r1);
          has_exp = (r2 \<noteq> [] \<and> (hd r2 = CHR ''e'' \<or> hd r2 = CHR ''E''));
          ex = (if has_exp then parse_exp (tl r2) else Some 0);
          sgn = (if neg then - 1 else 1)
      in if \<not> int_part_ok ip \<or> (has_frac \<and> fp = []) \<or> (\<not> has_exp \<and> r2 \<noteq> []) then None
         else case ex of
                None \<Rightarrow> None
              | Some e \<Rightarrow>
                  if \<not> has_frac \<and> \<not> has_exp then Some (JInt (sgn * int (digits_val ip)))
                  else Some (JFloat (Fin (of_int sgn * of_nat (digits_val (ip @ fp))
                                          * pow10 (e - int (length fp))))))"

definition word_token :: "string \<Rightarrow> error + token" where
  "word_token w =
     (if w = ''null'' then Inr (TVal JNull)
      else if w = ''true'' then Inr (TVal (JBool True))
      else if w = ''false'' then Inr (TVal (JBool False))
      else if w = ''NaN'' then Inr (TVal (JFloat NaN))
      else if w = ''Infinity'' then Inr (TVal (JFloat PInf))
      else if w = ''-Infinity'' then Inr (TVal (JFloat NInf))
      else case parse_number w of None \<Rightarrow> Inl JSONDecodeError | Some v \<Rightarrow> Inr (TVal v))"

subsection \<open>The scanner, character by character\<close>

definition json_ws :: "char \<Rightarrow> bool" where
  "json_ws c = (c = CHR '' '' \<or> c = CHR 0x09 \<or> c = CHR 0x0A \<or> c = CHR 0x0D)"

definition punct :: "char \<Rightarrow> token option" where
  "punct c =
     (if c = CHR ''{'' then Some TLBrace
      else if c = CHR ''}'' then Some TRBrace
      else if c = CHR ''['' then Some TLBrack
      else if c = CHR '']'' then Some TRBrack
      else if c = CHR '':'' then Some TColon
      else if c = CHR '','' then Some TComma
      else None)"

definition is_hex :: "char \<Rightarrow> bool" where
  "is_hex c = (is_digit c \<or> (97 \<le> code c \<and> code c \<le> 102) \<or> (65 \<le> code c \<and> code c \<le> 70))"

definition hex_val :: "char \<Rightarrow> nat" where
  "hex_val c = (if is_digit c then code c - 48 else if 97 \<le> code c then code c - 87 else code c - 55)"

definition decode_u :: "string \<Rightarrow> string" where
  \<comment> \<open>the character of \<open>\uXXXX\<close>; beyond 255 its three UTF-8 bytes stand for it\<close>
  "decode_u hs =
     (let n = foldl (\<lambda>a c. 16 * a + hex_val c) 0 hs in
      if n < 256 then [char_of n]
      else if n < 2048 then [char_of (192 + n div 64), char_of (128 + n mod 64)]
      else [char_of (224 + n div 4096), char_of (128 + (n div 64) mod 64), char_of (128 + n mod 64)])"

definition escape_char :: "char \<Rightarrow> char option" where
  "escape_char c =
     (if c = CHR 0x22 then Some (CHR 0x22)
      else if c = CHR 0x5C then Some (CHR 0x5C)
      else if c = CHR ''/'' then Some (CHR ''/'')
      else if c = CHR ''b'' then Some (CHR 0x08)
      else if c = CHR ''f'' then Some (CHR 0x0C)
      else if c = CHR ''n'' then Some (CHR 0x0A)
      else if c = CHR ''r'' then Some (CHR 0x0D)
      else if c = CHR ''t'' then Some (CHR 0x09)
      else None)"

datatype lmode =
    LTop
  | LWord string
  | LStr string
  | LEsc string
  | LHex string string

definition emit :: "error + token \<Rightarrow> error + token list \<Rightarrow> error + token list" where
  "emit t r =
     (case t of
        Inl e \<Rightarrow> Inl e
      | Inr tok \<Rightarrow> (case r of Inl e \<Rightarrow> Inl e | Inr ts \<Rightarrow> Inr (tok # ts)))"

fun lex :: "lmode \<Rightarrow> string \<Rightarrow> error + token list" where
  \<comment> \<open>The accumulators of a word and of a string hold their characters in reverse.\<close>
  "lex LTop [] = Inr []"
| "lex LTop (c # cs) =
     (if json_ws c then lex LTop cs
      else case punct c of
             Some t \<Rightarrow> emit (Inr t) (lex LTop cs)
           | None \<Rightarrow> if c = CHR 0x22 then lex (LStr []) cs else lex (LWord [c]) cs)"
| "lex (LWord w) [] = emit (word_token (rev w)) (Inr [])"
| "lex (LWord w) (c # cs) =
     (if json_ws c then emit (word_token (rev w)) (lex LTop cs)
      else case punct c of
             Some t \<Rightarrow> emit (word_token (rev w)) (emit (Inr t) (lex LTop cs))
           | None \<Rightarrow>
               if c = CHR 0x22 then emit (word_token (rev w)) (lex (LStr []) cs)
               else lex (LWord (c # w)) cs)"
| "lex (LStr a) [] = Inl JSONDecodeError"
| "lex (LStr a) (c # cs) =
     (if c = CHR 0x22 then emit (Inr (TStr (rev a))) (lex LTop cs)
      else if c = CHR 0x5C then lex (LEsc a) cs
      else if code c < 32 then Inl JSONDecodeError
      else lex (LStr (c # a)) cs)"
| "lex (LEsc a) [] = Inl JSONDecodeError"
| "lex (LEsc a) (c # cs) =
     (if c = CHR ''u'' then lex (LHex a []) cs
      else case escape_char c of
             Some d \<Rightarrow> lex (LStr (d # a)) cs
           | None \<Rightarrow> Inl JSONDecodeError)"
| "lex (LHex a hs) [] = Inl JSONDecodeError"
| "lex (LHex a hs) (c # cs) =
     (if \<not> is_hex c then Inl JSONDecodeError
      else if length hs = 3 then lex (LStr (rev (decode_u (hs @ [c])) @ a)) cs
      else lex (LHex a (hs @ [c])) cs)"

subsection \<open>The parser, token by token\<close>

datatype frame =
    FArr "json list"
  | FObj "(string \<times> json) list" "string option"

datatype expect =
    EValue
  | EValueOrEnd
  | EKeyOrEnd
  | EKey
  | EColon
  | ECommaOrEnd
  | EDone json

type_synonym pstate = "frame list \<times> expect"

fun complete :: "json \<Rightarrow> frame list \<Rightarrow> error + pstate" where
  \<comment> \<open>a value is finished: it is the result, an element, or the value of the pending key\<close>
  "complete v [] = Inr ([], EDone v)"
| "complete v (FArr xs # st) = Inr (FArr (v # xs) # st, ECommaOrEnd)"
| "complete v (FObj d (Some k) # st) = Inr (FObj (dict_set k v d) None # st, ECommaOrEnd)"
| "complete v (FObj d None # st) = Inl JSONDecodeError"

fun start_value :: "token \<Rightarrow> frame list \<Rightarrow> error + pstate" where
  "start_value (TStr s) st = complete (JStr s) st"
| "start_value (TVal v) st = complete v st"
| "start_value TLBrace st = Inr (FObj [] None # st, EKeyOrEnd)"
| "start_value TLBrack st = Inr (FArr [] # st, EValueOrEnd)"
| "start_value _ st = Inl JSONDecodeError"

fun key_token :: "token \<Rightarrow> frame list \<Rightarrow> error + pstate" where
  "key_token (TStr k) (FObj d None # st) = Inr (FObj d (Some k) # st, EColon)"
| "key_token _ _ = Inl JSONDecodeError"

fun close_token :: "token \<Rightarrow> frame list \<Rightarrow> error + pstate" where
  "close_token TRBrack (FArr xs # st) = complete (JArr (rev xs)) st"
| "close_token TRBrace (FObj d None # st) = complete (JObj d) st"
| "close_token _ _ = Inl JSONDecodeError"

fun pstep :: "pstate \<Rightarrow> token \<Rightarrow> error + pstate" where
  "pstep (st, EValue) t = start_value t st"
| "pstep (st, EValueOrEnd) t = (if t = TRBrack then close_token t st else start_value t st)"
| "pstep (st, EKeyOrEnd) t = (if t = TRBrace then close_token t st else key_token t st)"
| "pstep (st, EKey) t = key_token t st"
| "pstep (st, EColon) t = (if t = TColon then Inr (st, EValue) else Inl JSONDecodeError)"
| "pstep (st, ECommaOrEnd) t =
     (if t = TComma
      then (case st of
              FArr xs # _ \<Rightarrow> Inr (st, EValue)
            | FObj d k # _ \<Rightarrow> Inr (st, EKey)
            | [] \<Rightarrow> Inl JSONDecodeError)
      else close_token t st)"
| "pstep (st, EDone v) t = Inl JSONDecodeError"

fun prun :: "pstate \<Rightarrow> token list \<Rightarrow> error + json" where
  "prun (st, e) [] = (case e of EDone v \<Rightarrow> Inr v | _ \<Rightarrow> Inl JSONDecodeError)"
| "prun ps (t # ts) = (case pstep ps t of Inl e \<Rightarrow> Inl e | Inr ps' \<Rightarrow> prun ps' ts)"

definition json_loads :: "string \<Rightarrow> error + json" where
  "json_loads s = (case lex LTop s of Inl e \<Rightarrow> Inl e | Inr ts \<Rightarrow> prun ([], EValue) ts)"

section \<open>llm\_wrapper.py: the Text Extractor\<close>

definition linebreak :: "char \<Rightarrow> bool" where
  \<comment> \<open>the line boundaries of \<open>str.splitlines\<close>, a carriage return apart\<close>
  "linebreak c =
     (let n = code c in n = 10 \<or> n = 11 \<or> n = 12 \<or> n = 28 \<or> n = 29 \<or> n = 30 \<or> n = 133)"

fun splitlines_go :: "string \<Rightarrow> bool \<Rightarrow> string \<Rightarrow> string list" where
  \<comment> \<open>the current line in reverse; whether the last character was a carriage return\<close>
  "splitlines_go cur cr [] = (if cur = [] then [] else [rev cur])"
| "splitlines_go cur cr (c # cs) =
     (if cr \<and> c = CHR 0x0A then splitlines_go cur False cs
      else if c = CHR 0x0D then rev cur # splitlines_go [] True cs
      else if linebreak c then rev cur # splitlines_go [] False cs
      else splitlines_go (c # cur) False cs)"

definition splitlines :: "string \<Rightarrow> string list" where
  "splitlines s = splitlines_go [] False s"

fun join :: "string \<Rightarrow> string list \<Rightarrow> string" where
  "join sep [] = []"
| "join sep [l] = l"
| "join sep (l # m # ls) = l @ sep @ join sep (m # ls)"

definition strip_fences :: "string \<Rightarrow> string" where
  "strip_fences raw_text =
     (let raw = strip raw_text in
      if startswith raw ''```'' \<and> endswith raw ''```''
      then strip (join ''\<newline>'' (filter (\<lambda>l. \<not> startswith (strip l) ''```'') (splitlines raw)))
      else raw)"

fun scan :: "char \<Rightarrow> char \<Rightarrow> int \<Rightarrow> string \<Rightarrow> string option" where
  \<comment> \<open>the inner loop over \<open>j\<close>: the text from \<open>si\<close> up to the bracket that brings the
      depth back to zero\<close>
  "scan start_ch end_ch depth [] = None"
| "scan start_ch end_ch depth (x # xs) =
     (if x = start_ch then map_option (Cons x) (scan start_ch end_ch (depth + 1) xs)
      else if x = end_ch
      then (if depth - 1 = 0 then Some [x]
            else map_option (Cons x) (scan start_ch end_ch (depth - 1) xs))
      else map_option (Cons x) (scan start_ch end_ch depth xs))"

fun cands :: "char \<Rightarrow> char \<Rightarrow> string \<Rightarrow> string list" where
  \<comment> \<open>the loop over the occurrences of \<open>start_ch\<close>, in the order of their positions\<close>
  "cands start_ch end_ch [] = []"
| "cands start_ch end_ch (x # xs) =
     (if x = start_ch
      then (case scan start_ch end_ch 0 (x # xs) of
              Some b \<Rightarrow> b # cands start_ch end_ch xs
            | None \<Rightarrow> cands start_ch end_ch xs)
      else cands start_ch end_ch xs)"

definition candidates :: "string \<Rightarrow> string list" where
  "candidates raw = cands (CHR ''{'') (CHR ''}'') raw @ cands (CHR ''['') (CHR '']'') raw"

definition longer :: "string \<Rightarrow> string \<Rightarrow> string" where
  \<comment> \<open>one step of \<open>max\<close>: a later element wins only when its key is greater\<close>
  "longer best x = (if length best < length x then x else best)"

definition max_by_len :: "string list \<Rightarrow> string option" where
  \<comment> \<open>\<open>max(candidates, key=len) if candidates else None\<close>: the first of the longest\<close>
  "max_by_len cs = (case cs of [] \<Rightarrow> None | c # rest \<Rightarrow> Some (foldl longer c rest))"

fun find_from :: "nat \<Rightarrow> char \<Rightarrow> string \<Rightarrow> nat option" where
  "find_from i c [] = None"
| "find_from i c (x # xs) = (if x = c then Some i else find_from (Suc i) c xs)"

definition str_find :: "string \<Rightarrow> char \<Rightarrow> nat option" where
  \<comment> \<open>\<open>s.find(c)\<close>, with \<open>None\<close> for \<open>-1\<close>\<close>
  "str_find s c = find_from 0 c s"

definition rfind :: "string \<Rightarrow> char \<Rightarrow> nat option" where
  "rfind s c = (case str_find (rev s) c of None \<Rightarrow> None | Some i \<Rightarrow> Some (length s - 1 - i))"

definition slice :: "string \<Rightarrow> nat \<Rightarrow> nat \<Rightarrow> string" where
  \<comment> \<open>\<open>s[i:j]\<close> for indices within the string\<close>
  "slice s i j = take (j - i) (drop i s)"

definition naive_slice :: "string \<Rightarrow> string option" where
  "naive_slice raw =
     (case (str_find raw (CHR ''{''), rfind raw (CHR ''}'')) of
        (Some fi, Some la) \<Rightarrow> if fi < la then Some (slice raw fi (la + 1)) else None
      | _ \<Rightarrow> None)"

definition select_candidate :: "string \<Rightarrow> error + string" where
  "select_candidate raw =
     (case max_by_len (candidates raw) of
        Some c \<Rightarrow> Inr c
      | None \<Rightarrow>
          (case naive_slice raw of
             Some c \<Rightarrow> Inr c
           | None \<Rightarrow> Inl (ValueError ''Could not locate JSON in LLM output'')))"

definition text_extractor :: "string \<Rightarrow> error + string" where
  "text_extractor raw_text = select_candidate (strip_fences raw_text)"

section \<open>llm\_wrapper.py: the Repair Layer\<close>

definition closes :: "string \<Rightarrow> bool" where
  "closes r = (case r of [] \<Rightarrow> False | c # _ \<Rightarrow> c = CHR ''}'' \<or> c = CHR '']'')"

function remove_trailing_commas :: "string \<Rightarrow> string" where
  \<comment> \<open>\<open>re.sub(r",\s*([}\]])", r"\1", s)\<close>: a match starts at a comma and holds no other
      comma, so matches never overlap; the comma and the white space go, the bracket stays\<close>
  "remove_trailing_commas [] = []"
| "remove_trailing_commas (c # cs) =
     (if c = CHR '','' \<and> closes (dropWhile isspace cs)
      then remove_trailing_commas (dropWhile isspace cs)
      else c # remove_trailing_commas cs)"
  by pat_completeness auto
termination
  by (relation "measure length") (auto simp: length_dropWhile_le less_Suc_eq_le)

definition try_load :: "string \<Rightarrow> error + json" where
  "try_load s =
     (case json_loads s of
        Inr v \<Rightarrow> Inr v
      | Inl _ \<Rightarrow>
          (let s2 = remove_trailing_commas s in
           case json_loads s2 of
             Inr v \<Rightarrow> Inr v
           | Inl _ \<Rightarrow> json_loads (replace s2 [CHR 0x27] [CHR 0x22])))"

section \<open>pydantic\_models.py and the Validator\<close>

record Condition =
  condition :: string
  rationale :: string
  confidence :: string
  relative_score :: "pyfloat option"

record SymptomResponse =
  input :: string
  probable_conditions :: "Condition list"
  recommended_next_steps :: "string list"
  disclaimer :: string

text \<open>
  The constructor of a Pydantic model takes the fields by keyword. A key that is no
  field of the model is ignored, a missing \<open>relative_score\<close> gets the default \<open>0.0\<close>,
  any other missing or ill-typed field is a validation error. (The coercions that
  Pydantic offers beyond \<open>int\<close> to \<open>float\<close> are not modelled.)
\<close>

definition str_field :: "(string \<times> json) list \<Rightarrow> string \<Rightarrow> error + string" where
  "str_field d k = (case dict_get d k of Some (JStr s) \<Rightarrow> Inr s | _ \<Rightarrow> Inl ValidationError)"

definition score_field :: "(string \<times> json) list \<Rightarrow> error + pyfloat option" where
  "score_field d =
     (case dict_get d ''relative_score'' of
        None \<Rightarrow> Inr (Some (Fin 0))
      | Some JNull \<Rightarrow> Inr None
      | Some (JInt i) \<Rightarrow> Inr (Some (Fin (of_int i)))
      | Some (JFloat f) \<Rightarrow> Inr (Some f)
      | Some _ \<Rightarrow> Inl ValidationError)"

definition make_Condition :: "json \<Rightarrow> error + Condition" where
  "make_Condition v =
     (case v of
        JObj d \<Rightarrow>
          (case (str_field d ''condition'', str_field d ''rationale'',
                 str_field d ''confidence'', score_field d) of
             (Inr c, Inr r, Inr cf, Inr sc) \<Rightarrow>
               Inr \<lparr>condition = c, rationale = r, confidence = cf, relative_score = sc\<rparr>
           | _ \<Rightarrow> Inl ValidationError)
      | _ \<Rightarrow> Inl ValidationError)"

fun all_or_error :: "('a \<Rightarrow> error + 'b) \<Rightarrow> 'a list \<Rightarrow> error + 'b list" where
  "all_or_error f [] = Inr []"
| "all_or_error f (x # xs) =
     (case f x of
        Inl e \<Rightarrow> Inl e
      | Inr y \<Rightarrow> (case all_or_error f xs of Inl e \<Rightarrow> Inl e | Inr ys \<Rightarrow> Inr (y # ys)))"

definition str_item :: "json \<Rightarrow> error + string" where
  "str_item v = (case v of JStr s \<Rightarrow> Inr s | _ \<Rightarrow> Inl ValidationError)"

definition list_field ::
  "(json \<Rightarrow> error + 'b) \<Rightarrow> (string \<times> json) list \<Rightarrow> string \<Rightarrow> error + 'b list" where
  "list_field f d k =
     (case dict_get d k of Some (JArr xs) \<Rightarrow> all_or_error f xs | _ \<Rightarrow> Inl ValidationError)"

definition make_SymptomResponse :: "json \<Rightarrow> error + SymptomResponse" where
  \<comment> \<open>\<open>SymptomResponse(**parsed)\<close>\<close>
  "make_SymptomResponse parsed =
     (case parsed of
        JObj d \<Rightarrow>
          (case (str_field d ''input'', list_field make_Condition d ''probable_conditions'',
                 list_field str_item d ''recommended_next_steps'', str_field d ''disclaimer'') of
             (Inr i, Inr pcs, Inr steps, Inr dis) \<Rightarrow>
               Inr \<lparr>input = i, probable_conditions = pcs, recommended_next_steps = steps,
                    disclaimer = dis\<rparr>
           | _ \<Rightarrow> Inl ValidationError)
      | _ \<Rightarrow> Inl TypeError)"

section \<open>llm\_wrapper.py: Field Rescue and \<open>parse_and_validate_json\<close>\<close>

function show_nat :: "nat \<Rightarrow> string" where
  "show_nat n =
     (if n < 10 then [char_of (48 + n)] else show_nat (n div 10) @ [char_of (48 + n mod 10)])"
  by pat_completeness auto
termination
  by (relation "measure id") auto

definition show_int :: "int \<Rightarrow> string" where
  "show_int i = (if i < 0 then CHR ''-'' # show_nat (nat (- i)) else show_nat (nat i))"

fun frac_digits :: "nat \<Rightarrow> rat \<Rightarrow> string" where
  \<comment> \<open>the digits after the point of a number in [0, 1), at most as many as the fuel\<close>
  "frac_digits 0 r = []"
| "frac_digits (Suc n) r =
     (if r = 0 then []
      else let d = \<lfloor>r * 10\<rfloor> in
           char_of (48 + nat d) # frac_digits n (r * 10 - of_int d))"

definition float_repr :: "pyfloat \<Rightarrow> string" where
  \<comment> \<open>\<open>repr\<close> of a float, in positional notation with at most 17 digits after the point\<close>
  "float_repr f =
     (case f of
        NaN \<Rightarrow> ''nan''
      | PInf \<Rightarrow> ''inf''
      | NInf \<Rightarrow> ''-inf''
      | Fin r \<Rightarrow>
          (let a = \<bar>r\<bar>; ip = \<lfloor>a\<rfloor>; fd = frac_digits 17 (a - of_int ip) in
           (if r < 0 then ''-'' else []) @ show_int ip @ ''.'' @ (if fd = [] then ''0'' else fd)))"

definition py_str :: "json \<Rightarrow> string" where
  \<comment> \<open>\<open>str(v)\<close>; of a list or a dict only the opening bracket is rendered\<close>
  "py_str v =
     (case v of
        JStr s \<Rightarrow> s
      | JNull \<Rightarrow> ''None''
      | JBool b \<Rightarrow> (if b then ''True'' else ''False'')
      | JInt i \<Rightarrow> show_int i
      | JFloat f \<Rightarrow> float_repr f
      | JArr _ \<Rightarrow> ''[''
      | JObj _ \<Rightarrow> ''{'')"

definition rescue_score :: "string \<Rightarrow> rat" where
  "rescue_score conf =
     (if conf = ''high'' then 75 / 100
      else if conf = ''medium'' then 5 / 10
      else if conf = ''low'' then 25 / 100
      else 33 / 100)"

definition conf_of :: "(string \<times> json) list \<Rightarrow> string" where
  \<comment> \<open>\<open>str(pc.get("confidence", "")).lower()\<close>\<close>
  "conf_of pc = lower (py_str (case dict_get pc ''confidence'' of None \<Rightarrow> JStr [] | Some v \<Rightarrow> v))"

definition rescue_pc :: "json \<Rightarrow> error + (json \<times> bool)" where
  \<comment> \<open>the body of the loop over \<open>pcs\<close>: the element after it, and whether it was rescued.
      \<open>"relative_score" not in pc\<close> tests the keys of a dict, the elements of a list, the
      substrings of a string, and raises on anything else; \<open>pc.get\<close> exists on a dict only.\<close>
  "rescue_pc pc =
     (case pc of
        JObj d \<Rightarrow>
          (if dict_get d ''relative_score'' = None
           then Inr (JObj (dict_set ''relative_score'' (JFloat (Fin (rescue_score (conf_of d)))) d),
                     True)
           else Inr (pc, False))
      | JArr xs \<Rightarrow> (if JStr ''relative_score'' \<in> set xs then Inr (pc, False) else Inl AttributeError)
      | JStr s \<Rightarrow> (if str_in ''relative_score'' s then Inr (pc, False) else Inl AttributeError)
      | _ \<Rightarrow> Inl TypeError)"

fun rescue_loop :: "json list \<Rightarrow> error + (json list \<times> bool)" where
  "rescue_loop [] = Inr ([], False)"
| "rescue_loop (pc # pcs) =
     (case rescue_pc pc of
        Inl e \<Rightarrow> Inl e
      | Inr (pc', r) \<Rightarrow>
          (case rescue_loop pcs of
             Inl e \<Rightarrow> Inl e
           | Inr (pcs', r') \<Rightarrow> Inr (pc' # pcs', r \<or> r')))"

definition iter_json :: "json \<Rightarrow> error + json list" where
  \<comment> \<open>\<open>for pc in pcs\<close>: the elements of a list, the keys of a dict, the characters of a
      string; anything else is not iterable\<close>
  "iter_json pcs =
     (case pcs of
        JArr xs \<Rightarrow> Inr xs
      | JObj d \<Rightarrow> Inr (map (\<lambda>(k, v). JStr k) d)
      | JStr s \<Rightarrow> Inr (map (\<lambda>c. JStr [c]) s)
      | _ \<Rightarrow> Inl TypeError)"

definition marker :: string where
  "marker = '' parsed_and_rescued_relative_score''"

definition add_notes :: "(string \<times> json) list \<Rightarrow> error + (string \<times> json) list" where
  \<comment> \<open>\<open>setdefault\<close>, then \<open>parsed["notes"] = (parsed.get("notes", "") + marker).strip()\<close>\<close>
  "add_notes d =
     (case dict_get d ''notes'' of
        None \<Rightarrow> Inr (dict_set ''notes'' (JStr (strip ([] @ marker))) d)
      | Some (JStr n) \<Rightarrow> Inr (dict_set ''notes'' (JStr (strip (n @ marker))) d)
      | Some _ \<Rightarrow> Inl TypeError)"

definition field_rescue :: "json \<Rightarrow> error + json" where
  \<comment> \<open>The elements of \<open>pcs\<close> are changed in place, so the change shows in \<open>parsed\<close> where
      \<open>pcs\<close> is its list; keys and characters are never changed.\<close>
  "field_rescue parsed =
     (case parsed of
        JObj d \<Rightarrow>
          (let pcs = (case dict_get d ''probable_conditions'' of None \<Rightarrow> JArr [] | Some v \<Rightarrow> v)
           in case iter_json pcs of
                Inl e \<Rightarrow> Inl e
              | Inr xs \<Rightarrow>
                  (case rescue_loop xs of
                     Inl e \<Rightarrow> Inl e
                   | Inr (xs', rescued) \<Rightarrow>
                       (let d' = (case pcs of
                                    JArr _ \<Rightarrow>
                                      (if dict_get d ''probable_conditions'' = None then d
                                       else dict_set ''probable_conditions'' (JArr xs') d)
                                  | _ \<Rightarrow> d)
                        in if rescued
                           then (case add_notes d' of Inl e \<Rightarrow> Inl e | Inr d'' \<Rightarrow> Inr (JObj d''))
                           else Inr (JObj d'))))
      | _ \<Rightarrow> Inl AttributeError)"

definition parse_and_validate_json :: "string \<Rightarrow> error + SymptomResponse" where
  "parse_and_validate_json raw_text =
     (case text_extractor raw_text of
        Inl e \<Rightarrow> Inl e
      | Inr candidate \<Rightarrow>
          (case try_load candidate of
             Inl e \<Rightarrow> Inl e
           | Inr parsed \<Rightarrow>
               (case field_rescue parsed of
                  Inl e \<Rightarrow> Inl e
                | Inr parsed' \<Rightarrow> make_SymptomResponse parsed')))"

section \<open>\<open>json.dumps\<close> and the mock model\<close>

definition hex_digit :: "nat \<Rightarrow> char" where
  "hex_digit n = (if n < 10 then char_of (48 + n) else char_of (87 + n))"

definition escape :: "char \<Rightarrow> string" where
  \<comment> \<open>the escapes of \<open>json.dumps(..., ensure_ascii=False)\<close>\<close>
  "escape c =
     (if c = CHR 0x22 then [CHR 0x5C, CHR 0x22]
      else if c = CHR 0x5C then [CHR 0x5C, CHR 0x5C]
      else if c = CHR 0x0A then [CHR 0x5C, CHR ''n'']
      else if c = CHR 0x0D then [CHR 0x5C, CHR ''r'']
      else if c = CHR 0x09 then [CHR 0x5C, CHR ''t'']
      else if c = CHR 0x08 then [CHR 0x5C, CHR ''b'']
      else if c = CHR 0x0C then [CHR 0x5C, CHR ''f'']
      else if code c < 32
      then [CHR 0x5C, CHR ''u'', CHR ''0'', CHR ''0'', hex_digit (code c div 16), hex_digit (code c mod 16)]
      else [c])"

definition dumps_str :: "string \<Rightarrow> string" where
  "dumps_str s = [CHR 0x22] @ concat (map escape s) @ [CHR 0x22]"

definition dumps_float :: "pyfloat \<Rightarrow> string" where
  "dumps_float f =
     (case f of NaN \<Rightarrow> ''NaN'' | PInf \<Rightarrow> ''Infinity'' | NInf \<Rightarrow> ''-Infinity'' | Fin r \<Rightarrow> float_repr f)"

fun dumps :: "json \<Rightarrow> string" where
  "dumps JNull = ''null''"
| "dumps (JBool b) = (if b then ''true'' else ''false'')"
| "dumps (JInt i) = show_int i"
| "dumps (JFloat f) = dumps_float f"
| "dumps (JStr s) = dumps_str s"
| "dumps (JArr xs) = ''['' @ join '', '' (map dumps xs) @ '']''"
| "dumps (JObj d) =
     ''{'' @ join '', '' (map (\<lambda>kv. dumps_str (fst kv) @ '': '' @ dumps (snd kv)) d) @ ''}''"

definition em_dash :: string where
  "em_dash = [CHR 0xE2, CHR 0x80, CHR 0x94]"

definition unclear :: string where
  "unclear = ''Unclear '' @ em_dash @ '' further questions required''"

definition mock_llm :: "string \<Rightarrow> string" where
  "mock_llm symptoms =
     dumps (JObj
       [(''input'', JStr symptoms),
        (''probable_conditions'',
           JArr [JObj [(''condition'', JStr unclear),
                       (''rationale'', JStr ''Based on matching keywords.''),
                       (''confidence'', JStr ''low''),
                       (''relative_score'', JFloat (Fin 0))]]),
        (''recommended_next_steps'',
           JArr [JStr ''Educational only. Monitor symptoms and consult a healthcare provider if worsening.'',
                 JStr ''If severe or emergency signs: seek emergency care.'']),
        (''disclaimer'', JStr ''Educational use only. Not medical advice.'')])"

section \<open>llm\_wrapper.py: the collaborators\<close>

text \<open>
  What lies outside the program is a parameter: whether the OpenAI module and its key are
  there, what a call of the provider gives back, whether the directory and the file of
  the raw log and the history database can be written, and the SHA-256 digest. What the
  program writes is a state: the rows of the table \<open>queries\<close>, the blocks appended to
  the raw log, and the symptom texts \<open>call_openai_llm\<close> has been called with. The
  timestamp column is filled by the database and left out.
\<close>

record row =
  symptom_hash :: string
  engine :: string
  top_condition :: string
  top_score :: pyfloat
  row_notes :: string

record world =
  db :: "row list"
  raw_log :: "string list"
  llm_calls :: "string list"

record env =
  USE_OPENAI :: bool
  openai_create :: "string \<Rightarrow> error + string"
  log_dir_ok :: bool
  raw_log_ok :: bool
  db_ok :: "row list \<Rightarrow> bool"
  sha256 :: "string \<Rightarrow> string"

datatype limiter = AllowAll

fun allow :: "limiter \<Rightarrow> bool" where
  "allow AllowAll = True"

definition LLM_RATE_LIMITER :: limiter where
  "LLM_RATE_LIMITER = AllowAll"

definition error_str :: "error \<Rightarrow> string" where
  \<comment> \<open>\<open>str(e)\<close>: the message the program gave, or the name of the library's exception\<close>
  "error_str e =
     (case e of
        ValueError m \<Rightarrow> m
      | RuntimeError m \<Rightarrow> m
      | JSONDecodeError \<Rightarrow> ''JSONDecodeError''
      | AttributeError \<Rightarrow> ''AttributeError''
      | TypeError \<Rightarrow> ''TypeError''
      | IndexError \<Rightarrow> ''list index out of range''
      | ValidationError \<Rightarrow> ''ValidationError''
      | OSError \<Rightarrow> ''OSError''
      | SqliteError \<Rightarrow> ''SqliteError'')"

definition write_raw_log :: "env \<Rightarrow> string \<Rightarrow> string \<Rightarrow> world \<Rightarrow> world" where
  \<comment> \<open>the guarded \<open>with open(RAW_LOG, "a")\<close>: a failure is swallowed\<close>
  "write_raw_log ev header body w =
     (if raw_log_ok ev then w\<lparr>raw_log := raw_log w @ [header @ ''\<newline>'' @ body @ ''\<newline>'']\<rparr> else w)"

definition call_openai_llm :: "env \<Rightarrow> string \<Rightarrow> world \<Rightarrow> (error + string) \<times> world" where
  \<comment> \<open>The provider is called with the fixed prompt filled with the symptoms; here it is a
      function of the symptoms.\<close>
  "call_openai_llm ev symptoms w0 =
     (let w = w0\<lparr>llm_calls := llm_calls w0 @ [symptoms]\<rparr> in
      if \<not> log_dir_ok ev then (Inl OSError, w)
      else if \<not> USE_OPENAI ev
      then (let raw = mock_llm symptoms in (Inr raw, write_raw_log ev ''----MOCK CALL----'' raw w))
      else if \<not> allow LLM_RATE_LIMITER then (Inl (RuntimeError ''LLM rate limit exceeded''), w)
      else case openai_create ev symptoms of
             Inl e \<Rightarrow>
               (let w1 = write_raw_log ev ''----OPENAI_ERROR----'' (error_str e) w;
                    text = mock_llm symptoms
                in (Inr text, write_raw_log ev ''----FALLBACK_MOCK_OUTPUT----'' text w1))
           | Inr text \<Rightarrow> (Inr text, write_raw_log ev ''----CALL----'' text w))"

definition log_query ::
  "env \<Rightarrow> string \<Rightarrow> string \<Rightarrow> string \<Rightarrow> pyfloat option \<Rightarrow> string \<Rightarrow> world \<Rightarrow> error + world" where
  \<comment> \<open>\<open>_init_db()\<close> comes first; \<open>float(top_score)\<close> raises on \<open>None\<close>\<close>
  "log_query ev symptom_text eng top_cond score nts w =
     (if \<not> db_ok ev (db w) then Inl SqliteError
      else case score of
             None \<Rightarrow> Inl TypeError
           | Some f \<Rightarrow>
               Inr (w\<lparr>db := db w @ [\<lparr>symptom_hash = sha256 ev (lower (strip symptom_text)),
                                      engine = eng, top_condition = top_cond, top_score = f,
                                      row_notes = nts\<rparr>]\<rparr>))"

section \<open>llm\_wrapper.py: the Orchestrator\<close>

definition emergencies :: "string list" where
  "emergencies =
     [''chest pain'', ''severe chest pain'', ''difficulty breathing'', ''shortness of breath'',
      ''unconscious'', ''severe bleeding'', ''fainting'']"

definition advice :: string where
  "advice = ''Educational only. Consider seeing a clinician for evaluation.''"

definition edu_disclaimer :: string where
  "edu_disclaimer = ''Educational only. Not medical advice.''"

definition emergency_condition :: string where
  "emergency_condition = ''Possible emergency '' @ em_dash @ '' seek immediate care''"

definition emergency_response :: "string \<Rightarrow> SymptomResponse" where
  "emergency_response symptoms =
     \<lparr>input = symptoms,
      probable_conditions =
        [\<lparr>condition = emergency_condition, rationale = ''Emergency keyword matched.'',
          confidence = ''high'', relative_score = Some (Fin 1)\<rparr>],
      recommended_next_steps = [''Seek emergency care immediately.''],
      disclaimer = edu_disclaimer\<rparr>"

definition rule_pcs :: "(string \<times> rat) list \<Rightarrow> Condition list" where
  "rule_pcs rules =
     map (\<lambda>(cond, score).
            \<lparr>condition = cond, rationale = ''Matched rule keywords.'',
             confidence = (if score < 1 then ''medium'' else ''high''),
             relative_score = Some (Fin score)\<rparr>) rules"

definition fallback_response :: "string \<Rightarrow> string \<Rightarrow> SymptomResponse" where
  "fallback_response symptoms why =
     \<lparr>input = symptoms,
      probable_conditions =
        [\<lparr>condition = unclear, rationale = why, confidence = ''low'',
          relative_score = Some (Fin 0)\<rparr>],
      recommended_next_steps = [advice],
      disclaimer = edu_disclaimer\<rparr>"

definition llm_success :: "env \<Rightarrow> string \<Rightarrow> string \<Rightarrow> world \<Rightarrow> error + (SymptomResponse \<times> world)" where
  \<comment> \<open>the body of the \<open>try\<close>; \<open>SymptomResponse\<close> has no attribute \<open>notes\<close>, so
      \<open>getattr(validated, "notes", "")\<close> is the empty string\<close>
  "llm_success ev symptoms raw w =
     (case parse_and_validate_json raw of
        Inl e \<Rightarrow> Inl e
      | Inr validated \<Rightarrow>
          (case probable_conditions validated of
             [] \<Rightarrow> Inl IndexError
           | top_pc # _ \<Rightarrow>
               (case log_query ev symptoms ''llm'' (condition top_pc) (relative_score top_pc) [] w of
                  Inl e \<Rightarrow> Inl e
                | Inr w' \<Rightarrow> Inr (validated, w'))))"

definition get_safely_inferred ::
  "env \<Rightarrow> string \<Rightarrow> bool \<Rightarrow> world \<Rightarrow> (error + SymptomResponse) \<times> world" where
  "get_safely_inferred ev symptoms allow_llm w =
     (let s = lower symptoms in
      if list_ex (\<lambda>e. str_in e s) emergencies
      then (case log_query ev symptoms ''emergency'' emergency_condition (Some (Fin 1))
                   ''emergency_short_circuit'' w of
              Inl e \<Rightarrow> (Inl e, w)
            | Inr w' \<Rightarrow> (Inr (emergency_response symptoms), w'))
      else
        let rules = infer_conditions symptoms in
        if rules \<noteq> [] \<and> 0 < snd (hd rules)
        then (let pcs = rule_pcs rules in
              case log_query ev symptoms ''rule_based'' (condition (hd pcs)) (relative_score (hd pcs))
                     ''rule_based_match'' w of
                Inl e \<Rightarrow> (Inl e, w)
              | Inr w' \<Rightarrow>
                  (Inr \<lparr>input = symptoms, probable_conditions = pcs,
                        recommended_next_steps = [advice], disclaimer = edu_disclaimer\<rparr>, w'))
        else if allow_llm
        then (case call_openai_llm ev symptoms w of
                (Inl e, w1) \<Rightarrow> (Inl e, w1)
              | (Inr raw, w1) \<Rightarrow>
                  (case llm_success ev symptoms raw w1 of
                     Inr (validated, w2) \<Rightarrow> (Inr validated, w2)
                   | Inl e \<Rightarrow>
                       (case log_query ev symptoms ''fallback'' unclear (Some (Fin 0))
                              (''llm_parse_error:'' @ error_str e) w1 of
                          Inl e' \<Rightarrow> (Inl e', w1)
                        | Inr w2 \<Rightarrow>
                            (Inr (fallback_response symptoms
                                    ''Fallback due to LLM parse/validation error.''), w2))))
        else (case log_query ev symptoms ''no_llm'' unclear (Some (Fin 0)) ''llm_disabled'' w of
                Inl e \<Rightarrow> (Inl e, w)
              | Inr w' \<Rightarrow>
                  (Inr (fallback_response symptoms ''LLM disabled or no rules matched.''), w')))"

section \<open>Concrete collaborators\<close>

text \<open>
  Closed instances of the parameters, for running the program on concrete inputs: no
  OpenAI key and everything writable; the same with a history database that refuses
  every write; and a provider that answers every call with a given text. The digest is
  left as the identity.
\<close>

definition world0 :: world where
  "world0 = \<lparr>db = [], raw_log = [], llm_calls = []\<rparr>"

definition env_mock :: env where
  "env_mock =
     \<lparr>USE_OPENAI = False, openai_create = (\<lambda>_. Inl OSError), log_dir_ok = True,
      raw_log_ok = True, db_ok = (\<lambda>_. True), sha256 = (\<lambda>s. s)\<rparr>"


definition env_openai :: "string \<Rightarrow> env" where
  "env_openai reply = env_mock\<lparr>USE_OPENAI := True, openai_create := (\<lambda>_. Inr reply)\<rparr>"

definition empty_reply :: string where
  \<open>empty_reply =
     ''{"input": "x", "probable_conditions": [], "recommended_next_steps": [], "disclaimer": "d"}''\<close>

definition policy :: "string \<Rightarrow> rat \<Rightarrow> bool" where
  \<comment> \<open>the rescue policy in the words of the specification\<close>
  "policy label sc =
     ((label = ''high'' \<longrightarrow> sc = 75 / 100) \<and>
      (label = ''medium'' \<longrightarrow> sc = 5 / 10) \<and>
      (label = ''low'' \<longrightarrow> sc = 25 / 100) \<and>
      (label \<noteq> ''high'' \<and> label \<noteq> ''medium'' \<and> label \<noteq> ''low'' \<longrightarrow> sc = 33 / 100))"

definition rescued_to :: "json \<Rightarrow> json \<Rightarrow> bool" where
  \<comment> \<open>an element of \<open>probable_conditions\<close> before and after Field Rescue: the label is
      the confidence string in lower case; no string, no label\<close>
  "rescued_to pc pc' =
     (case pc of
        JObj e \<Rightarrow>
          if dict_get e ''relative_score'' = None
          then (\<exists>e' sc. pc' = JObj e' \<and> dict_get e' ''relative_score'' = Some (JFloat (Fin sc)) \<and>
                  (\<forall>k. k \<noteq> ''relative_score'' \<longrightarrow> dict_get e' k = dict_get e k) \<and>
                  (case dict_get e ''confidence'' of
                     Some (JStr s) \<Rightarrow> policy (lower s) sc
                   | _ \<Rightarrow> sc = 33 / 100))
          else pc' = pc
      | _ \<Rightarrow> pc' = pc)"

definition sample_pcs :: "json list" where
  "sample_pcs =
     [JObj [(''condition'', JStr ''a''), (''confidence'', JStr ''High'')],
      JObj [(''condition'', JStr ''b''), (''confidence'', JStr ''medium'')],
      JObj [(''condition'', JStr ''c''), (''confidence'', JStr ''low'')],
      JObj [(''condition'', JStr ''d'')],
      JObj [(''condition'', JStr ''e''), (''confidence'', JStr ''certain'')],
      JObj [(''condition'', JStr ''f''), (''confidence'', JInt 3)],
      JObj [(''condition'', JStr ''g''), (''confidence'', JStr ''high''),
            (''relative_score'', JFloat (Fin (1 / 10)))]]"

definition sample_parsed :: "(string \<times> json) list" where
  "sample_parsed = [(''input'', JStr ''x''), (''probable_conditions'', JArr sample_pcs)]"

definition sample_rescued :: "json list" where
  "sample_rescued =
     [JObj [(''condition'', JStr ''a''), (''confidence'', JStr ''High''),
            (''relative_score'', JFloat (Fin (75 / 100)))],
      JObj [(''condition'', JStr ''b''), (''confidence'', JStr ''medium''),
            (''relative_score'', JFloat (Fin (5 / 10)))],
      JObj [(''condition'', JStr ''c''), (''confidence'', JStr ''low''),
            (''relative_score'', JFloat (Fin (25 / 100)))],
      JObj [(''condition'', JStr ''d''), (''relative_score'', JFloat (Fin (33 / 100)))],
      JObj [(''condition'', JStr ''e''), (''confidence'', JStr ''certain''),
            (''relative_score'', JFloat (Fin (33 / 100)))],
      JObj [(''condition'', JStr ''f''), (''confidence'', JInt 3),
            (''relative_score'', JFloat (Fin (33 / 100)))],
      JObj [(''condition'', JStr ''g''), (''confidence'', JStr ''high''),
            (''relative_score'', JFloat (Fin (1 / 10)))]]"

definition sample_out :: "(string \<times> json) list" where
  "sample_out =
     [(''input'', JStr ''x''), (''probable_conditions'', JArr sample_rescued),
      (''notes'', JStr ''parsed_and_rescued_relative_score'')]"

definition scenario_reply :: string where
  \<open>scenario_reply =
     ''Sure, here is the assessment:\<newline>```json\<newline>{"input": "vague tiredness", "probable_conditions": [{"condition": "viral illness", "rationale": "Common cause.", "confidence": "medium"}], "recommended_next_steps": ["Rest."], "disclaimer": "Educational only."}\<newline>```\<newline>Let me know if you need more.''\<close>

definition scenario_response :: SymptomResponse where
  "scenario_response =
     \<lparr>input = ''vague tiredness'',
      probable_conditions =
        [\<lparr>condition = ''viral illness'', rationale = ''Common cause.'', confidence = ''medium'',
          relative_score = Some (Fin (5 / 10))\<rparr>],
      recommended_next_steps = [''Rest.''], disclaimer = ''Educational only.''\<rparr>"

definition rescued_json :: "string \<Rightarrow> error + json" where
  \<comment> \<open>what \<open>parse_and_validate_json\<close> hands to the constructor of \<open>SymptomResponse\<close>\<close>
  "rescued_json raw_text =
     (case text_extractor raw_text of
        Inl e \<Rightarrow> Inl e
      | Inr candidate \<Rightarrow>
          (case try_load candidate of Inl e \<Rightarrow> Inl e | Inr parsed \<Rightarrow> field_rescue parsed))"

definition notes_of :: "json \<Rightarrow> json option" where
  "notes_of parsed = (case parsed of JObj d \<Rightarrow> dict_get d ''notes'' | _ \<Rightarrow> None)"



definition emitp :: "error + token \<Rightarrow> error + (token list \<times> lmode) \<Rightarrow> error + (token list \<times> lmode)" where
  "emitp t r =
     (case t of
        Inl e \<Rightarrow> Inl e
      | Inr tok \<Rightarrow> (case r of Inl e \<Rightarrow> Inl e | Inr (ts, m) \<Rightarrow> Inr (tok # ts, m)))"

fun lex_prefix :: "lmode \<Rightarrow> string \<Rightarrow> error + (token list \<times> lmode)" where
  \<comment> \<open>the scanner on the beginning of a text: the tokens finished so far and the mode
      it is in\<close>
  "lex_prefix m [] = Inr ([], m)"
| "lex_prefix LTop (c # cs) =
     (if json_ws c then lex_prefix LTop cs
      else case punct c of
             Some t \<Rightarrow> emitp (Inr t) (lex_prefix LTop cs)
           | None \<Rightarrow> if c = CHR 0x22 then lex_prefix (LStr []) cs else lex_prefix (LWord [c]) cs)"
| "lex_prefix (LWord w) (c # cs) =
     (if json_ws c then emitp (word_token (rev w)) (lex_prefix LTop cs)
      else case punct c of
             Some t \<Rightarrow> emitp (word_token (rev w)) (emitp (Inr t) (lex_prefix LTop cs))
           | None \<Rightarrow>
               if c = CHR 0x22 then emitp (word_token (rev w)) (lex_prefix (LStr []) cs)
               else lex_prefix (LWord (c # w)) cs)"
| "lex_prefix (LStr a) (c # cs) =
     (if c = CHR 0x22 then emitp (Inr (TStr (rev a))) (lex_prefix LTop cs)
      else if c = CHR 0x5C then lex_prefix (LEsc a) cs
      else if code c < 32 then Inl JSONDecodeError
      else lex_prefix (LStr (c # a)) cs)"
| "lex_prefix (LEsc a) (c # cs) =
     (if c = CHR ''u'' then lex_prefix (LHex a []) cs
      else case escape_char c of
             Some d \<Rightarrow> lex_prefix (LStr (d # a)) cs
           | None \<Rightarrow> Inl JSONDecodeError)"
| "lex_prefix (LHex a hs) (c # cs) =
     (if \<not> is_hex c then Inl JSONDecodeError
      else if length hs = 3 then lex_prefix (LStr (rev (decode_u (hs @ [c])) @ a)) cs
      else lex_prefix (LHex a (hs @ [c])) cs)"

definition outside_string :: "string \<Rightarrow> bool" where
  \<comment> \<open>after this beginning of a text the scanner is not inside a string literal\<close>
  "outside_string a =
     (case lex_prefix LTop a of
        Inr (ts, LTop) \<Rightarrow> True
      | Inr (ts, LWord w) \<Rightarrow> True
      | _ \<Rightarrow> False)"

definition then_lex :: "error + (token list \<times> lmode) \<Rightarrow> string \<Rightarrow> error + token list" where
  "then_lex p r =
     (case p of
        Inl e \<Rightarrow> Inl e
      | Inr (ts, m) \<Rightarrow> (case lex m r of Inl e \<Rightarrow> Inl e | Inr tr \<Rightarrow> Inr (ts @ tr)))"

definition closer :: "token \<Rightarrow> bool" where
  "closer t = (t = TRBrace \<or> t = TRBrack)"

fun tshape :: "token \<Rightarrow> token" where
  \<comment> \<open>a token without its content\<close>
  "tshape (TStr s) = TStr []"
| "tshape (TVal v) = TVal JNull"
| "tshape t = t"

fun fshape :: "frame \<Rightarrow> frame" where
  "fshape (FArr xs) = FArr []"
| "fshape (FObj d k) = FObj [] (map_option (\<lambda>_. []) k)"

fun eshape :: "expect \<Rightarrow> expect" where
  "eshape (EDone v) = EDone JNull"
| "eshape e = e"

definition pshape :: "pstate \<Rightarrow> pstate" where
  "pshape ps = (map fshape (fst ps), eshape (snd ps))"

definition succeeds :: "error + 'a \<Rightarrow> bool" where
  "succeeds r = (case r of Inl _ \<Rightarrow> False | Inr _ \<Rightarrow> True)"

fun drop_tc :: "token list \<Rightarrow> token list" where
  \<comment> \<open>the tokens without the commas that stand right before a closing bracket\<close>
  "drop_tc [] = []"
| "drop_tc [t] = [t]"
| "drop_tc (t # u # ts) = (if t = TComma \<and> closer u then drop_tc (u # ts) else t # drop_tc (u # ts))"

fun no_tc :: "token list \<Rightarrow> bool" where
  "no_tc [] = True"
| "no_tc [t] = True"
| "no_tc (t # u # ts) = (\<not> (t = TComma \<and> closer u) \<and> no_tc (u # ts))"

fun in_string :: "lmode \<Rightarrow> bool" where
  "in_string LTop = False"
| "in_string (LWord w) = False"
| "in_string m = True"

fun mshape :: "lmode \<Rightarrow> lmode" where
  "mshape (LStr a) = LStr []"
| "mshape (LEsc a) = LEsc []"
| "mshape (LHex a hs) = LHex [] hs"
| "mshape m = m"

definition sh :: "error + token list \<Rightarrow> error + token list" where
  "sh r = (case r of Inl e \<Rightarrow> Inl e | Inr ts \<Rightarrow> Inr (map tshape ts))"

definition sample_trailing :: string where
  \<open>sample_trailing = ''{"a": [1, 2], "b": ",}" , }''\<close>

definition sample_quotes :: string where
  "sample_quotes = ''{'' @ [CHR 0x27] @ ''a'' @ [CHR 0x27] @ '': 1,}''"

section \<open>The Orchestrator: which tier answers\<close>

lemma log_query_calls: "log_query ev s eng c sc n w = Inr w' \<Longrightarrow> llm_calls w' = llm_calls w"
  by (auto simp: log_query_def split: if_splits option.splits)



lemma hd_rule_pcs:
  "rules \<noteq> [] \<Longrightarrow>
     relative_score (hd (rule_pcs rules)) = Some (Fin (snd (hd rules))) \<and>
     condition (hd (rule_pcs rules)) = fst (hd rules) \<and> rule_pcs rules \<noteq> []"
  by (cases rules) (auto simp: rule_pcs_def split: prod.splits)

lemma llm_success_nonempty:
  "llm_success ev symptoms raw w = Inr (r, w') \<Longrightarrow> probable_conditions r \<noteq> []"
  by (auto simp: llm_success_def split: sum.splits list.splits)

lemma rule_match:
  assumes "key \<in> fst ` set RULES" and "str_in key (normalize_text symptoms)"
  shows "infer_conditions symptoms \<noteq> [] \<and> snd (hd (infer_conditions symptoms)) = 1"
  using assms by (auto simp: infer_conditions_def RULES_def Let_def)

lemma infer_conditions_scores: "(c, sc) \<in> set (infer_conditions symptoms) \<Longrightarrow> sc = 1"
  by (auto simp: infer_conditions_def Let_def split: if_splits)







text \<open>
  C3: when a keyword of the rule table is a substring of the normalized text, a run of
  \<open>get_safely_inferred\<close> leaves the record of the calls of \<open>call_openai_llm\<close> as it
  was, whatever the allow-llm flag and whatever the collaborators do.
\<close>

theorem rule_match_no_llm:
  assumes "key \<in> fst ` set RULES" and "str_in key (normalize_text symptoms)"
  shows "llm_calls (snd (get_safely_inferred ev symptoms allow_llm w)) = llm_calls w"
proof -
  have r: "infer_conditions symptoms \<noteq> []" "0 < snd (hd (infer_conditions symptoms))"
    using rule_match [OF assms] by simp_all
  show ?thesis
    using r
    by (auto simp: get_safely_inferred_def Let_def split: sum.splits dest: log_query_calls)
qed

lemma normalize_cough: "normalize_text ''Bad COUGH, 3 days!'' = ''bad cough    days''"
  by code_simp

theorem rule_match_no_llm_witness:
  "''cough'' \<in> fst ` set RULES \<and> str_in ''cough'' (normalize_text ''Bad COUGH, 3 days!'') \<and>
   llm_calls (snd (get_safely_inferred (env_openai empty_reply) ''Bad COUGH, 3 days!'' True world0))
     = llm_calls world0"
proof -
  have a: "''cough'' \<in> fst ` set RULES" by (simp add: RULES_def)
  have b: "str_in ''cough'' (normalize_text ''Bad COUGH, 3 days!'')"
    unfolding normalize_cough by simp
  show ?thesis
    using a b rule_match_no_llm [OF a b, of "env_openai empty_reply" True world0] by simp
qed


lemma no_emergency_fever:
  "list_ex (\<lambda>e. str_in e (lower ''fever and sore throat'')) emergencies = False"
  by code_simp

lemma infer_fever_sore:
  "infer_conditions ''fever and sore throat'' =
     [(''flu'', 1), (''infection'', 1), (''throat infection'', 1), (''cold'', 1)]"
  by code_simp

text \<open>
  C9: the input "fever and sore throat" is answered at the rule tier, with the Conditions
  flu, infection, throat infection, cold in the order of the rule table, each of relative
  score 1.0 and confidence "high" (the history database taking the row, whose tier is
  "rule\_based"); and for every input, every Condition the rule tier builds has
  confidence "high" and relative score 1.0.
\<close>

theorem rule_tier_scenario:
  assumes "db_ok ev (db w)"
  shows "(\<exists>w'. get_safely_inferred ev ''fever and sore throat'' allow_llm w =
            (Inr \<lparr>input = ''fever and sore throat'',
                  probable_conditions =
                    map (\<lambda>c. \<lparr>condition = c, rationale = ''Matched rule keywords.'',
                               confidence = ''high'', relative_score = Some (Fin 1)\<rparr>)
                        [''flu'', ''infection'', ''throat infection'', ''cold''],
                  recommended_next_steps = [advice], disclaimer = edu_disclaimer\<rparr>, w')
            \<and> map engine (db w') = map engine (db w) @ [''rule_based''])
         \<and> (\<forall>c \<in> set (rule_pcs (infer_conditions symptoms)).
               confidence c = ''high'' \<and> relative_score c = Some (Fin 1))"
proof
  show "\<exists>w'. get_safely_inferred ev ''fever and sore throat'' allow_llm w =
            (Inr \<lparr>input = ''fever and sore throat'',
                  probable_conditions =
                    map (\<lambda>c. \<lparr>condition = c, rationale = ''Matched rule keywords.'',
                               confidence = ''high'', relative_score = Some (Fin 1)\<rparr>)
                        [''flu'', ''infection'', ''throat infection'', ''cold''],
                  recommended_next_steps = [advice], disclaimer = edu_disclaimer\<rparr>, w')
            \<and> map engine (db w') = map engine (db w) @ [''rule_based'']"
    using assms
    by (simp add: get_safely_inferred_def no_emergency_fever infer_fever_sore Let_def rule_pcs_def
          log_query_def)
next
  show "\<forall>c \<in> set (rule_pcs (infer_conditions symptoms)).
          confidence c = ''high'' \<and> relative_score c = Some (Fin 1)"
    by (auto simp: rule_pcs_def dest: infer_conditions_scores)
qed

lemma cough_headache: "rule_pcs (infer_conditions ''cough and headache'') \<noteq> []"
  by code_simp

theorem rule_tier_scenario_witness:
  "db_ok env_mock (db world0) \<and>
   (\<exists>w'. get_safely_inferred env_mock ''fever and sore throat'' False world0 =
            (Inr \<lparr>input = ''fever and sore throat'',
                  probable_conditions =
                    map (\<lambda>c. \<lparr>condition = c, rationale = ''Matched rule keywords.'',
                               confidence = ''high'', relative_score = Some (Fin 1)\<rparr>)
                        [''flu'', ''infection'', ''throat infection'', ''cold''],
                  recommended_next_steps = [advice], disclaimer = edu_disclaimer\<rparr>, w')
            \<and> map engine (db w') = map engine (db world0) @ [''rule_based''])
   \<and> rule_pcs (infer_conditions ''cough and headache'') \<noteq> []
   \<and> list_all (\<lambda>c. confidence c = ''high'' \<and> relative_score c = Some (Fin 1))
        (rule_pcs (infer_conditions ''cough and headache''))"
proof -
  have a: "db_ok env_mock (db world0)" by (simp add: env_mock_def)
  show ?thesis
    unfolding list_all_iff
    using a cough_headache rule_tier_scenario [OF a, of False "''cough and headache''"] by blast
qed

text \<open>
  C10: every \<open>SymptomResponse\<close> that \<open>get_safely_inferred\<close> returns has at least one
  Condition. On the path of the model, indexing the first Condition of a validated
  response without Conditions fails inside the guarded block, and the caller gets the
  fixed fallback response.
\<close>

theorem at_least_one_condition:
  assumes "get_safely_inferred ev symptoms allow_llm w = (Inr r, w')"
  shows "probable_conditions r \<noteq> []"
  using assms
  by (auto simp: get_safely_inferred_def Let_def emergency_response_def fallback_response_def
        hd_rule_pcs
      split: if_splits sum.splits prod.splits dest: llm_success_nonempty)

lemma empty_validated_diverted:
  "parse_and_validate_json raw = Inr v \<Longrightarrow> probable_conditions v = [] \<Longrightarrow>
     llm_success ev symptoms raw w = Inl IndexError"
  by (simp add: llm_success_def)

lemma empty_reply_validated:
  "parse_and_validate_json empty_reply =
     Inr \<lparr>input = ''x'', probable_conditions = [], recommended_next_steps = [], disclaimer = ''d''\<rparr>"
  by code_simp

lemma empty_reply_run:
  "fst (get_safely_inferred (env_openai empty_reply) ''vague tiredness'' True world0) =
     Inr (fallback_response ''vague tiredness'' ''Fallback due to LLM parse/validation error.'')"
  by code_simp

theorem at_least_one_condition_witness:
  "fst (get_safely_inferred (env_openai empty_reply) ''vague tiredness'' True world0) =
     Inr (fallback_response ''vague tiredness'' ''Fallback due to LLM parse/validation error.'') \<and>
   probable_conditions
     (fallback_response ''vague tiredness'' ''Fallback due to LLM parse/validation error.'') \<noteq> []"
proof -
  let ?run = "get_safely_inferred (env_openai empty_reply) ''vague tiredness'' True world0"
  have "?run = (Inr (fallback_response ''vague tiredness''
                       ''Fallback due to LLM parse/validation error.''), snd ?run)"
    using empty_reply_run by (metis prod.collapse)
  from at_least_one_condition [OF this] empty_reply_run show ?thesis by simp
qed

section \<open>Field Rescue\<close>

lemma dict_get_set_same: "dict_get (dict_set k v d) k = Some v"
  by (induction d) (auto simp: dict_get_def)

lemma dict_get_set_other: "k' \<noteq> k \<Longrightarrow> dict_get (dict_set k v d) k' = dict_get d k'"
  by (induction d) (auto simp: dict_get_def)

lemma policy_rescue_score: "policy conf (rescue_score conf)"
  by (simp add: policy_def rescue_score_def)

lemma code_char_of: "n < 256 \<Longrightarrow> code (char_of n) = n"
  by (simp add: code_def)

lemma show_nat_low: "list_all (\<lambda>c. code c < 65) (show_nat n) \<and> show_nat n \<noteq> []"
proof (induction n rule: show_nat.induct)
  case (1 n)
  show ?case
  proof (cases "n < 10")
    case True
    then show ?thesis by (subst show_nat.simps, subst (2) show_nat.simps) (simp add: code_char_of)
  next
    case False
    then show ?thesis
      using 1 by (subst show_nat.simps, subst (2) show_nat.simps) (simp add: code_char_of)
  qed
qed

lemma show_int_low: "list_all (\<lambda>c. code c < 65) (show_int i) \<and> show_int i \<noteq> []"
  using show_nat_low by (simp add: show_int_def code_def)

lemma frac_digits_low: "0 \<le> r \<Longrightarrow> r < 1 \<Longrightarrow> list_all (\<lambda>c. code c < 65) (frac_digits n r)"
proof (induction n arbitrary: r)
  case 0
  then show ?case by simp
next
  case (Suc n)
  let ?d = "\<lfloor>r * 10\<rfloor>"
  have d0: "0 \<le> ?d" using Suc.prems by simp
  have d9: "?d < 10" using Suc.prems by (simp add: floor_less_iff)
  have r0: "0 \<le> r * 10 - of_int ?d" by linarith
  have r1: "r * 10 - of_int ?d < 1" by linarith
  have "nat ?d < 10" using d0 d9 by linarith
  then have c: "code (char_of (48 + nat ?d)) < 65"
    by (subst code_char_of) linarith+
  have e: "frac_digits (Suc n) r =
             (if r = 0 then [] else char_of (48 + nat ?d) # frac_digits n (r * 10 - of_int ?d))"
    by (simp add: Let_def)
  show ?case
    unfolding e using c Suc.IH [OF r0 r1] by (cases "r = 0") (simp_all del: frac_digits.simps)
qed

lemma float_repr_fin_low:
  "list_all (\<lambda>c. code c < 65) (float_repr (Fin r)) \<and> float_repr (Fin r) \<noteq> []"
proof -
  have "0 \<le> \<bar>r\<bar> - of_int \<lfloor>\<bar>r\<bar>\<rfloor>" "\<bar>r\<bar> - of_int \<lfloor>\<bar>r\<bar>\<rfloor> < 1"
    by linarith+
  then have "list_all (\<lambda>c. code c < 65) (frac_digits 17 (\<bar>r\<bar> - of_int \<lfloor>\<bar>r\<bar>\<rfloor>))"
    by (rule frac_digits_low)
  then show ?thesis
    using show_int_low [of "\<lfloor>\<bar>r\<bar>\<rfloor>"] by (simp add: float_repr_def Let_def code_def)
qed

lemma low_not_label:
  assumes "list_all (\<lambda>c. code c < 65) s" and "s \<noteq> []"
  shows "rescue_score (lower s) = 33 / 100"
proof -
  obtain c cs where s: "s = c # cs" using assms(2) by (cases s) auto
  then have "code c < 65" using assms(1) by simp
  then have "lower_char c = c" by (simp add: lower_char_def Let_def)
  then have "hd (lower s) = c" using s by (simp add: lower_def)
  moreover have "code c \<noteq> code (CHR ''h'')" "code c \<noteq> code (CHR ''m'')" "code c \<noteq> code (CHR ''l'')"
    using \<open>code c < 65\<close> by (simp_all add: code_def)
  ultimately have "lower s \<noteq> ''high''" "lower s \<noteq> ''medium''" "lower s \<noteq> ''low''"
    by auto
  then show ?thesis by (simp add: rescue_score_def)
qed

lemma nonstring_not_label:
  assumes "\<And>s. v \<noteq> JStr s"
  shows "rescue_score (lower (py_str v)) = 33 / 100"
proof (cases v)
  case (JInt i)
  then show ?thesis using low_not_label show_int_low by (simp add: py_str_def)
next
  case (JFloat f)
  then show ?thesis
  proof (cases f)
    case (Fin r)
    then show ?thesis using JFloat low_not_label float_repr_fin_low by (simp add: py_str_def)
  qed (simp_all add: py_str_def JFloat float_repr_def rescue_score_def lower_def lower_char_def code_def)
qed (use assms in \<open>simp_all add: py_str_def rescue_score_def lower_def lower_char_def code_def\<close>)

lemma rescue_score_conf:
  "(case dict_get e ''confidence'' of
      Some (JStr s) \<Rightarrow> policy (lower s) (rescue_score (conf_of e))
    | _ \<Rightarrow> rescue_score (conf_of e) = 33 / 100)"
proof (cases "dict_get e ''confidence''")
  case None
  then show ?thesis by (simp add: conf_of_def py_str_def lower_def rescue_score_def)
next
  case (Some v)
  show ?thesis
  proof (cases "\<exists>s. v = JStr s")
    case True
    then show ?thesis using Some by (auto simp: conf_of_def py_str_def policy_rescue_score)
  next
    case False
    then have "rescue_score (lower (py_str v)) = 33 / 100"
      by (intro nonstring_not_label) auto
    then show ?thesis using Some False by (cases v) (auto simp: conf_of_def)
  qed
qed

lemma rescue_pc_rel: "rescue_pc pc = Inr (pc', r) \<Longrightarrow> rescued_to pc pc'"
  using rescue_score_conf
  by (auto simp: rescue_pc_def rescued_to_def dict_get_set_same dict_get_set_other
      split: json.splits if_splits)

lemma rescue_loop_rel: "rescue_loop xs = Inr (xs', r) \<Longrightarrow> list_all2 rescued_to xs xs'"
proof (induction xs arbitrary: xs' r)
  case Nil
  then show ?case by simp
next
  case (Cons pc pcs)
  then show ?case
    by (auto split: sum.splits prod.splits dest: rescue_pc_rel)
qed

lemma add_notes_other:
  "add_notes d = Inr d' \<Longrightarrow> k \<noteq> ''notes'' \<Longrightarrow> dict_get d' k = dict_get d k"
  by (auto simp: add_notes_def dict_get_set_other split: option.splits json.splits)

text \<open>
  C4: Field Rescue is a function of the parsed value. An element of
  \<open>probable_conditions\<close> that is a mapping without the key \<open>relative_score\<close> gets one and
  keeps every other key: 0.75 when the confidence string, in lower case, is "high", 0.5
  for "medium", 0.25 for "low", and 0.33 for anything else, an absent confidence and one
  that is no string included. Every other element is left as it is; a
  \<open>relative_score\<close> that is there is never overwritten.
\<close>

theorem field_rescue_policy:
  assumes "field_rescue (JObj d) = Inr parsed'"
    and "dict_get d ''probable_conditions'' = Some (JArr xs)"
  shows "\<exists>d' xs'. parsed' = JObj d' \<and> dict_get d' ''probable_conditions'' = Some (JArr xs') \<and>
           list_all2 rescued_to xs xs'"
proof -
  obtain xs' rescued where l: "rescue_loop xs = Inr (xs', rescued)"
    using assms by (auto simp: field_rescue_def iter_json_def Let_def split: sum.splits)
  let ?d1 = "dict_set ''probable_conditions'' (JArr xs') d"
  have g: "dict_get ?d1 ''probable_conditions'' = Some (JArr xs')"
    by (rule dict_get_set_same)
  have "\<exists>d'. parsed' = JObj d' \<and> dict_get d' ''probable_conditions'' = Some (JArr xs')"
  proof (cases rescued)
    case True
    then obtain d2 where "add_notes ?d1 = Inr d2" "parsed' = JObj d2"
      using assms l by (auto simp: field_rescue_def iter_json_def Let_def split: sum.splits)
    then show ?thesis
      using add_notes_other [of ?d1 d2 "''probable_conditions''"] g by simp
  next
    case False
    then have "parsed' = JObj ?d1"
      using assms l by (auto simp: field_rescue_def iter_json_def Let_def split: sum.splits)
    then show ?thesis using g by simp
  qed
  then show ?thesis using rescue_loop_rel [OF l] by blast
qed

lemma sample_run: "field_rescue (JObj sample_parsed) = Inr (JObj sample_out)"
  by code_simp

theorem field_rescue_policy_witness:
  "field_rescue (JObj sample_parsed) = Inr (JObj sample_out) \<and>
   dict_get sample_parsed ''probable_conditions'' = Some (JArr sample_pcs) \<and>
   dict_get sample_out ''probable_conditions'' = Some (JArr sample_rescued) \<and>
   list_all2 rescued_to sample_pcs sample_rescued"
proof -
  have a: "dict_get sample_parsed ''probable_conditions'' = Some (JArr sample_pcs)"
    by (simp add: sample_parsed_def dict_get_def)
  have b: "dict_get sample_out ''probable_conditions'' = Some (JArr sample_rescued)"
    by (simp add: sample_out_def dict_get_def)
  from field_rescue_policy [OF sample_run a] a b sample_run show ?thesis by auto
qed

section \<open>The marker of a rescue\<close>

lemma parse_and_validate_json_rescued:
  "parse_and_validate_json raw =
     (case rescued_json raw of Inl e \<Rightarrow> Inl e | Inr parsed \<Rightarrow> make_SymptomResponse parsed)"
  by (simp add: parse_and_validate_json_def rescued_json_def split: sum.splits)

text \<open>
  C5, on the code: the reply of the model wraps, in commentary and a fenced block, valid
  JSON with one Condition that has confidence "medium" and no \<open>relative_score\<close>. The
  validated response gives that Condition the score 0.5. Field Rescue writes the marker
  under the key \<open>notes\<close> of the parsed mapping, but \<open>SymptomResponse\<close> declares no such
  field: the constructor drops the key, the response returned consists of its four
  declared fields, and the notes logged for the tier "llm" are empty.
\<close>

theorem rescue_marker_dropped:
  "parse_and_validate_json scenario_reply = Inr scenario_response \<and>
   map_sum id notes_of (rescued_json scenario_reply)
     = Inr (Some (JStr ''parsed_and_rescued_relative_score'')) \<and>
   fst (get_safely_inferred (env_openai scenario_reply) ''vague tiredness'' True world0)
     = Inr scenario_response \<and>
   map (\<lambda>r. (engine r, row_notes r))
       (db (snd (get_safely_inferred (env_openai scenario_reply) ''vague tiredness'' True world0)))
     = [(''llm'', [])]"
  by code_simp

section \<open>The Text Extractor\<close>















section \<open>The Repair Layer\<close>

lemma lex_error: "lex m s = Inl e \<Longrightarrow> e = JSONDecodeError"
  by (induction m s rule: lex.induct)
     (auto simp: emit_def word_token_def split: if_splits option.splits sum.splits)

lemma then_lex_emitp: "then_lex (emitp t p) r = emit t (then_lex p r)"
  by (auto simp: then_lex_def emitp_def emit_def split: sum.splits prod.splits)

lemma lex_append: "lex m (a @ r) = then_lex (lex_prefix m a) r"
proof (induction m a rule: lex_prefix.induct)
  case (1 m)
  show ?case by (simp add: then_lex_def split: sum.splits)
qed (auto simp: then_lex_emitp split: option.splits, simp_all add: then_lex_def)

lemma complete_error: "complete v st = Inl e \<Longrightarrow> e = JSONDecodeError"
  by (cases "(v, st)" rule: complete.cases) auto

lemma pstep_error: "pstep ps t = Inl e \<Longrightarrow> e = JSONDecodeError"
  by (cases "(ps, t)" rule: pstep.cases)
     (auto split: if_splits list.splits frame.splits
        elim!: start_value.elims key_token.elims close_token.elims
        dest: complete_error complete_error [OF sym])

lemma prun_error: "prun ps ts = Inl e \<Longrightarrow> e = JSONDecodeError"
proof (induction ts arbitrary: ps)
  case Nil
  then show ?case by (cases ps) (auto split: expect.splits)
next
  case (Cons t ts)
  then show ?case by (auto split: sum.splits dest: pstep_error)
qed

lemma pstep_comma_closer:
  assumes "pstep ps TComma = Inr ps'" and "closer t"
  shows "pstep ps' t = Inl JSONDecodeError"
proof -
  obtain st e where ps: "ps = (st, e)" by (cases ps)
  from assms(1) have e: "e = ECommaOrEnd"
    unfolding ps by (cases e) auto
  show ?thesis
    using assms unfolding ps e closer_def
    by (cases st) (auto split: frame.splits)
qed

lemma prun_comma_closer:
  assumes "closer t"
  shows "prun ps (xs @ TComma # t # ys) = Inl JSONDecodeError"
proof (induction xs arbitrary: ps)
  case Nil
  show ?case
  proof (cases "pstep ps TComma")
    case (Inl e)
    then show ?thesis using pstep_error by auto
  next
    case (Inr ps')
    then show ?thesis using pstep_comma_closer [OF Inr assms] by simp
  qed
next
  case (Cons x xs)
  show ?case
  proof (cases "pstep ps x")
    case (Inl e)
    then show ?thesis using pstep_error by auto
  next
    case (Inr ps')
    then show ?thesis using Cons by simp
  qed
qed

lemma fshape_idem [simp]: "fshape (fshape x) = fshape x"
  by (cases x) (auto simp: option.map_comp comp_def)

lemma eshape_idem [simp]: "eshape (eshape e) = eshape e"
  by (cases e) auto

lemma tshape_idem [simp]: "tshape (tshape t) = tshape t"
  by (cases t) auto

lemma complete_shape:
  "map_sum id pshape (complete v st) = map_sum id pshape (complete v' (map fshape st))"
  by (cases "(v, st)" rule: complete.cases) (auto simp: pshape_def)

lemma start_value_shape:
  "map_sum id pshape (start_value t st) = map_sum id pshape (start_value (tshape t) (map fshape st))"
proof (cases t)
  case (TStr x)
  then show ?thesis using complete_shape [of "JStr x" st "JStr []"] by simp
next
  case (TVal v)
  then show ?thesis using complete_shape [of v st JNull] by simp
qed (simp_all add: pshape_def)

lemma key_token_shape:
  "map_sum id pshape (key_token t st) = map_sum id pshape (key_token (tshape t) (map fshape st))"
  by (cases "(t, st)" rule: key_token.cases) (auto simp: pshape_def)

lemma close_token_shape:
  "map_sum id pshape (close_token t st) = map_sum id pshape (close_token (tshape t) (map fshape st))"
proof (cases "(t, st)" rule: close_token.cases)
  case (1 xs st')
  then show ?thesis using complete_shape [of "JArr (rev xs)" st' "JArr (rev [])"] by simp
next
  case (2 d st')
  then show ?thesis using complete_shape [of "JObj d" st' "JObj []"] by simp
qed auto

lemma tshape_eq [simp]:
  "(tshape t = TRBrack) = (t = TRBrack)" "(tshape t = TRBrace) = (t = TRBrace)"
  "(tshape t = TColon) = (t = TColon)" "(tshape t = TComma) = (t = TComma)"
  by (cases t; simp)+

lemma pstep_shape:
  "map_sum id pshape (pstep ps t) = map_sum id pshape (pstep (pshape ps) (tshape t))"
proof -
  obtain st e where ps: "ps = (st, e)" by (cases ps)
  have sv: "map_sum id pshape (start_value t st) =
              map_sum id pshape (start_value (tshape t) (map fshape st))"
    by (rule start_value_shape)
  have kt: "map_sum id pshape (key_token t st) =
              map_sum id pshape (key_token (tshape t) (map fshape st))"
    by (rule key_token_shape)
  have ct: "map_sum id pshape (close_token t st) =
              map_sum id pshape (close_token (tshape t) (map fshape st))"
    by (rule close_token_shape)
  show ?thesis
  proof (cases e)
    case EValue
    then show ?thesis using sv by (simp add: ps pshape_def)
  next
    case EValueOrEnd
    show ?thesis
    proof (cases "t = TRBrack")
      case True
      then show ?thesis using ct EValueOrEnd by (simp add: ps pshape_def)
    next
      case False
      then show ?thesis using sv EValueOrEnd by (simp add: ps pshape_def)
    qed
  next
    case EKeyOrEnd
    show ?thesis
    proof (cases "t = TRBrace")
      case True
      then show ?thesis using ct EKeyOrEnd by (simp add: ps pshape_def)
    next
      case False
      then show ?thesis using kt EKeyOrEnd by (simp add: ps pshape_def)
    qed
  next
    case EKey
    then show ?thesis using kt by (simp add: ps pshape_def)
  next
    case EColon
    then show ?thesis by (simp add: ps pshape_def)
  next
    case ECommaOrEnd
    show ?thesis
    proof (cases "t = TComma")
      case True
      show ?thesis
      proof (cases st)
        case Nil
        then show ?thesis using True ECommaOrEnd by (simp add: ps pshape_def)
      next
        case (Cons f fs)
        then show ?thesis
          using True ECommaOrEnd
          by (cases f) (simp_all add: ps pshape_def option.map_comp comp_def)
      qed
    next
      case False
      then show ?thesis using ECommaOrEnd ct by (simp add: ps pshape_def)
    qed
  next
    case (EDone v)
    then show ?thesis by (simp add: ps pshape_def)
  qed
qed

lemma prun_shape:
  "map tshape ts = map tshape ts' \<Longrightarrow> pshape ps = pshape ps' \<Longrightarrow>
     succeeds (prun ps ts) = succeeds (prun ps' ts')"
proof (induction ts arbitrary: ts' ps ps')
  case Nil
  obtain st e where ps: "ps = (st, e)" by (cases ps)
  obtain st' e' where ps': "ps' = (st', e')" by (cases ps')
  have "eshape e = eshape e'" using Nil.prems(2) by (simp add: ps ps' pshape_def)
  moreover have "ts' = []" using Nil.prems(1) by simp
  ultimately show ?case by (cases e; cases e') (simp_all add: ps ps' succeeds_def)
next
  case (Cons t ts)
  obtain t' ts1 where ts': "ts' = t' # ts1" "tshape t = tshape t'" "map tshape ts = map tshape ts1"
    using Cons.prems(1) by (cases ts') auto
  have e: "map_sum id pshape (pstep ps t) = map_sum id pshape (pstep ps' t')"
    using pstep_shape [of ps t] pstep_shape [of ps' t'] Cons.prems(2) ts'(2) by simp
  show ?case
  proof (cases "pstep ps t")
    case (Inl x)
    then obtain y where "pstep ps' t' = Inl y" using e by (cases "pstep ps' t'") auto
    then show ?thesis using Inl ts'(1) by (simp add: succeeds_def)
  next
    case (Inr ps1)
    then obtain ps2 where p2: "pstep ps' t' = Inr ps2" and sh: "pshape ps1 = pshape ps2"
      using e by (cases "pstep ps' t'") auto
    have "succeeds (prun ps1 ts) = succeeds (prun ps2 ts1)"
      using ts'(3) sh by (rule Cons.IH)
    then show ?thesis using Inr p2 ts'(1) by simp
  qed
qed

lemma prun_same_shape:
  assumes "map tshape ts = map tshape ts'" and "prun ps ts = Inr v"
  shows "\<exists>v'. prun ps ts' = Inr v'"
proof -
  have "succeeds (prun ps ts') = succeeds (prun ps ts)"
    using prun_shape [OF assms(1) refl, of ps] by simp
  then show ?thesis using assms(2) by (cases "prun ps ts'") (auto simp: succeeds_def)
qed

lemma drop_tc_keep: "t \<noteq> TComma \<Longrightarrow> drop_tc (t # ts) = t # drop_tc ts"
  by (cases ts) auto

lemma drop_tc_append: "TComma \<notin> set es \<Longrightarrow> drop_tc (es @ tr) = es @ drop_tc tr"
  by (induction es) (auto simp: drop_tc_keep)

lemma drop_tc_comma_keep:
  "(\<And>u tl. tr = u # tl \<Longrightarrow> \<not> closer u) \<Longrightarrow> drop_tc (TComma # tr) = TComma # drop_tc tr"
  by (cases tr) auto

lemma closer_tshape [simp]: "closer (tshape u) = closer u"
  by (cases u) (auto simp: closer_def)

lemma drop_tc_tshape: "map tshape (drop_tc ts) = drop_tc (map tshape ts)"
  by (induction ts rule: drop_tc.induct) auto

lemma drop_tc_no_tc: "no_tc ts \<Longrightarrow> drop_tc ts = ts"
  by (induction ts rule: drop_tc.induct) auto

lemma not_no_tc: "\<not> no_tc ts \<Longrightarrow> \<exists>xs t ys. ts = xs @ TComma # t # ys \<and> closer t"
proof (induction ts rule: no_tc.induct)
  case (3 t u ts)
  show ?case
  proof (cases "t = TComma \<and> closer u")
    case True
    then have "t # u # ts = [] @ TComma # u # ts \<and> closer u" by simp
    then show ?thesis by blast
  next
    case False
    then have "\<not> no_tc (u # ts)" using "3.prems" by simp
    then obtain xs t' ys where "u # ts = xs @ TComma # t' # ys" "closer t'"
      using "3.IH" by blast
    then have "t # u # ts = (t # xs) @ TComma # t' # ys \<and> closer t'" by simp
    then show ?thesis by blast
  qed
qed simp_all

lemma prun_no_tc: "prun ps ts = Inr v \<Longrightarrow> no_tc ts"
  using not_no_tc [of ts] prun_comma_closer by fastforce

lemma no_tc_Cons: "no_tc (x # xs) \<Longrightarrow> no_tc xs"
  by (cases xs) auto

lemma drop_tc_inserted:
  "no_tc (xs @ TRBrace # ys) \<Longrightarrow> drop_tc (xs @ TComma # TRBrace # ys) = xs @ TRBrace # ys"
proof (induction xs)
  case Nil
  then show ?case by (simp add: closer_def drop_tc_no_tc)
next
  case (Cons x xs)
  have ih: "drop_tc (xs @ TComma # TRBrace # ys) = xs @ TRBrace # ys"
    using Cons.IH no_tc_Cons [OF Cons.prems [simplified]] by simp
  show ?case
  proof (cases xs)
    case Nil
    then have "x \<noteq> TComma" using Cons.prems by (auto simp: closer_def)
    then show ?thesis using ih Nil by (simp add: drop_tc_keep)
  next
    case (Cons y zs)
    then have "\<not> (x = TComma \<and> closer y)" using Cons.prems by simp
    then show ?thesis using ih Cons by auto
  qed
qed

lemma isspace_plain:
  assumes "isspace c"
  shows "punct c = None" "c \<noteq> CHR 0x22" "c \<noteq> CHR 0x5C" "c \<noteq> CHR '',''" "\<not> is_digit c"
    "c \<noteq> CHR ''-''" "c \<noteq> CHR ''n''" "c \<noteq> CHR ''t''" "c \<noteq> CHR ''f''" "c \<noteq> CHR ''N''"
    "c \<noteq> CHR ''I''" "c \<noteq> CHR ''}''" "c \<noteq> CHR '']''"
  using assms by (auto simp: isspace_def punct_def is_digit_def code_def Let_def)

lemma json_ws_isspace: "json_ws c \<Longrightarrow> isspace c"
  by (auto simp: json_ws_def isspace_def code_def Let_def)

lemma parse_number_start:
  assumes "parse_number (c # cs) = Some v"
  shows "c = CHR ''-'' \<or> is_digit c"
proof (rule ccontr)
  assume n: "\<not> (c = CHR ''-'' \<or> is_digit c)"
  then have "takeWhile is_digit (c # cs) = []" by simp
  then have "\<not> int_part_ok (takeWhile is_digit (c # cs))"
    by (simp add: int_part_ok_def all_digits_def)
  then show False using assms n by (simp add: parse_number_def Let_def)
qed

lemma word_token_start:
  assumes "word_token (c # cs) = Inr t"
  shows "\<not> isspace c"
proof
  assume s: "isspace c"
  have "parse_number (c # cs) = None"
    using parse_number_start [of c cs] isspace_plain(5,6) [OF s]
    by (cases "parse_number (c # cs)") auto
  then show False
    using assms isspace_plain [OF s] by (auto simp: word_token_def split: if_splits)
qed

lemma word_token_val: "word_token w = Inr t \<Longrightarrow> \<exists>v. t = TVal v"
  by (auto simp: word_token_def split: if_splits option.splits)

lemma emit_Inr: "emit t r = Inr ts \<longleftrightarrow> (\<exists>tok tl. t = Inr tok \<and> r = Inr tl \<and> ts = tok # tl)"
  by (auto simp: emit_def split: sum.splits)

lemma lex_word_first:
  "lex (LWord w) s = Inr ts \<Longrightarrow> w \<noteq> [] \<Longrightarrow> (\<exists>v tl. ts = TVal v # tl) \<and> \<not> isspace (last w)"
proof (induction s arbitrary: w)
  case Nil
  then obtain tok where t: "word_token (rev w) = Inr tok" "ts = [tok]"
    by (auto simp: emit_Inr)
  obtain c cs where "rev w = c # cs" "c = last w"
    using Nil.prems(2) by (metis last_rev list.exhaust_sel list.sel(1) rev_is_Nil_conv rev_rev_ident hd_rev)
  then show ?case using t word_token_start word_token_val by metis
next
  case (Cons c s)
  show ?case
  proof (cases "json_ws c \<or> punct c \<noteq> None \<or> c = CHR 0x22")
    case True
    then obtain tok tl where t: "word_token (rev w) = Inr tok" "ts = tok # tl"
      using Cons.prems(1) by (auto simp: emit_Inr split: option.splits if_splits)
    obtain d ds where "rev w = d # ds" "d = last w"
      using Cons.prems(2) by (metis last_rev list.exhaust_sel rev_is_Nil_conv hd_rev)
    then show ?thesis using t word_token_start word_token_val by metis
  next
    case False
    then have "lex (LWord (c # w)) s = Inr ts" using Cons.prems(1) by auto
    from Cons.IH [OF this] show ?thesis using Cons.prems(2) by simp
  qed
qed

lemma lex_string_first:
  "in_string m \<Longrightarrow> lex m s = Inr ts \<Longrightarrow> \<exists>x tk. ts = TStr x # tk"
proof (induction s arbitrary: m)
  case Nil
  then show ?case by (cases m) auto
next
  case (Cons c s)
  show ?case
  proof (cases m)
    case (LStr a)
    show ?thesis
    proof (cases "c = CHR 0x22")
      case True
      then show ?thesis using Cons.prems LStr by (auto simp: emit_Inr)
    next
      case False
      then have "lex (LEsc a) s = Inr ts \<or> lex (LStr (c # a)) s = Inr ts"
        using Cons.prems LStr by (auto split: if_splits)
      then show ?thesis using Cons.IH [of "LEsc a"] Cons.IH [of "LStr (c # a)"] by auto
    qed
  next
    case (LEsc a)
    then have "lex (LHex a []) s = Inr ts \<or> (\<exists>d. lex (LStr (d # a)) s = Inr ts)"
      using Cons.prems by (auto split: if_splits option.splits)
    then show ?thesis using Cons.IH [of "LHex a []"] Cons.IH [of "LStr (_ # a)"] by auto
  next
    case (LHex a hs)
    then have "lex (LStr (rev (decode_u (hs @ [c])) @ a)) s = Inr ts \<or>
               lex (LHex a (hs @ [c])) s = Inr ts"
      using Cons.prems by (auto split: if_splits)
    then show ?thesis
      using Cons.IH [of "LStr (rev (decode_u (hs @ [c])) @ a)"] Cons.IH [of "LHex a (hs @ [c])"]
      by auto
  qed (use Cons.prems in auto)
qed

lemma punct_closer: "punct c = Some t \<Longrightarrow> closer t \<Longrightarrow> c = CHR ''}'' \<or> c = CHR '']''"
  by (auto simp: punct_def closer_def split: if_splits)

lemma lex_top_closer:
  "lex LTop cs = Inr (t # tk) \<Longrightarrow> closer t \<Longrightarrow> closes (dropWhile isspace cs)"
proof (induction cs)
  case Nil
  then show ?case by simp
next
  case (Cons c cs)
  show ?case
  proof (cases "json_ws c")
    case True
    then show ?thesis using Cons json_ws_isspace by simp
  next
    case ws: False
    show ?thesis
    proof (cases "punct c")
      case (Some p)
      then have "p = t" using Cons.prems(1) ws by (auto simp: emit_Inr)
      then have c: "c = CHR ''}'' \<or> c = CHR '']''"
        using punct_closer Some Cons.prems(2) by simp
      then have "\<not> isspace c" using isspace_plain(12,13) by blast
      then show ?thesis using c by (auto simp: closes_def)
    next
      case None
      show ?thesis
      proof (cases "c = CHR 0x22")
        case True
        then have "lex (LStr []) cs = Inr (t # tk)" using Cons.prems(1) ws None by simp
        then show ?thesis using lex_string_first [of "LStr []" cs] Cons.prems(2)
          by (auto simp: closer_def)
      next
        case False
        then have "lex (LWord [c]) cs = Inr (t # tk)" using Cons.prems(1) ws None by simp
        then show ?thesis using lex_word_first [of "[c]" cs] Cons.prems(2)
          by (auto simp: closer_def)
      qed
    qed
  qed
qed

lemma lex_top_skip_space:
  "list_all isspace wsp \<Longrightarrow> lex LTop (wsp @ r) = Inr tr \<Longrightarrow> lex LTop r = Inr tr"
proof (induction wsp)
  case Nil
  then show ?case by simp
next
  case (Cons c wsp)
  have sp: "isspace c" using Cons.prems(1) by simp
  show ?case
  proof (cases "json_ws c")
    case True
    then show ?thesis using Cons by simp
  next
    case False
    then have "lex (LWord [c]) (wsp @ r) = Inr tr"
      using Cons.prems(2) isspace_plain(1,2) [OF sp] by simp
    then show ?thesis using lex_word_first [of "[c]" "wsp @ r" tr] sp by simp
  qed
qed

lemma lex_str_skip_space:
  "list_all isspace wsp \<Longrightarrow> lex (LStr a) (wsp @ r) = Inr ts \<Longrightarrow> \<exists>a'. lex (LStr a') r = Inr ts"
proof (induction wsp arbitrary: a)
  case Nil
  then show ?case by auto
next
  case (Cons c wsp)
  have sp: "isspace c" using Cons.prems(1) by simp
  have "lex (LStr (c # a)) (wsp @ r) = Inr ts"
    using Cons.prems(2) isspace_plain(2,3) [OF sp] by (auto split: if_splits)
  then show ?case using Cons.IH [of "c # a"] Cons.prems(1) by simp
qed

lemma sh_simps [simp]: "sh (Inl e) = Inl e" "sh (Inr ts) = Inr (map tshape ts)"
  by (simp_all add: sh_def)

lemma sh_emit: "sh (emit (Inr t) r) = emit (Inr (tshape t)) (sh r)"
  by (cases r) (auto simp: emit_def)

lemma sh_emit_any: "sh r = sh r' \<Longrightarrow> sh (emit t r) = sh (emit t r')"
  by (cases t; cases r; cases r') (auto simp: emit_def)

lemma lex_shape:
  "mshape m = mshape m' \<Longrightarrow>
     sh (lex m s) = sh (lex m' s)"
proof (induction s arbitrary: m m')
  case Nil
  then show ?case by (cases m; cases m') auto
next
  case (Cons c s)
  show ?case
  proof (cases m)
    case LTop
    then show ?thesis using Cons.prems by (cases m') auto
  next
    case (LWord w)
    then show ?thesis using Cons.prems by (cases m') auto
  next
    case (LStr a)
    then obtain a' where m': "m' = LStr a'" using Cons.prems by (cases m') auto
    have 1: "sh (lex (LEsc a) s) = sh (lex (LEsc a') s)"
      by (rule Cons.IH) simp
    have 2: "sh (lex (LStr (c # a)) s) =
             sh (lex (LStr (c # a')) s)"
      by (rule Cons.IH) simp
    show ?thesis unfolding LStr m' using 1 2 by (simp add: sh_emit)
  next
    case (LEsc a)
    then obtain a' where m': "m' = LEsc a'" using Cons.prems by (cases m') auto
    have 1: "sh (lex (LHex a []) s) = sh (lex (LHex a' []) s)"
      by (rule Cons.IH) simp
    have 2: "\<And>d. sh (lex (LStr (d # a)) s) =
             sh (lex (LStr (d # a')) s)"
      by (rule Cons.IH) simp
    show ?thesis unfolding LEsc m' using 1 2 by (simp split: option.splits)
  next
    case (LHex a hs)
    then obtain a' where m': "m' = LHex a' hs" using Cons.prems by (cases m') auto
    have 1: "sh (lex (LHex a (hs @ [c])) s) =
             sh (lex (LHex a' (hs @ [c])) s)"
      by (rule Cons.IH) simp
    have 2: "sh (lex (LStr (rev (decode_u (hs @ [c])) @ a)) s) =
             sh (lex (LStr (rev (decode_u (hs @ [c])) @ a')) s)"
      by (rule Cons.IH) simp
    show ?thesis unfolding LHex m' using 1 2 by simp
  qed
qed

lemma lex_str_any_acc:
  assumes "lex (LStr a') r = Inr ts"
  shows "\<exists>ts0. lex (LStr a) r = Inr ts0 \<and> map tshape ts0 = map tshape ts"
proof -
  have "sh (lex (LStr a) r) = sh (lex (LStr a') r)"
    by (rule lex_shape) simp
  then show ?thesis using assms by (cases "lex (LStr a) r") (auto simp: sh_def)
qed

lemma lex_prefix_one:
  assumes "lex_prefix m [c] = Inr (es, m')"
  shows "(c \<noteq> CHR '','' \<longrightarrow> TComma \<notin> set es) \<and>
         (c = CHR '','' \<longrightarrow> (in_string m \<and> es = []) \<or>
            (m' = LTop \<and> (\<exists>es0. es = es0 @ [TComma] \<and> TComma \<notin> set es0)))"
proof (cases m)
  case LTop
  then show ?thesis
    using assms by (auto simp: emitp_def punct_def json_ws_def split: if_splits option.splits)
next
  case (LWord w)
  show ?thesis
  proof (cases "word_token (rev w)")
    case (Inl e)
    then show ?thesis
      using assms LWord
      by (auto simp: emitp_def punct_def json_ws_def split: if_splits option.splits)
  next
    case (Inr tw)
    then obtain v where "tw = TVal v" using word_token_val by blast
    then show ?thesis
      using assms LWord Inr
      by (auto simp: emitp_def punct_def json_ws_def split: if_splits option.splits)
  qed
next
  case (LStr a)
  then show ?thesis using assms by (auto simp: emitp_def split: if_splits)
next
  case (LEsc a)
  then show ?thesis using assms by (auto simp: escape_char_def split: if_splits option.splits)
next
  case (LHex a hs)
  then show ?thesis using assms by (auto simp: is_hex_def is_digit_def code_def split: if_splits)
qed

lemma lex_one:
  assumes "lex m (c # cs) = Inr ts"
  shows "\<exists>es m' tr. lex_prefix m [c] = Inr (es, m') \<and> lex m' cs = Inr tr \<and> ts = es @ tr"
proof -
  have "lex m ([c] @ cs) = then_lex (lex_prefix m [c]) cs" by (rule lex_append)
  then show ?thesis
    using assms by (auto simp: then_lex_def split: sum.splits prod.splits)
qed

lemma lex_one_back:
  assumes "lex_prefix m [c] = Inr (es, m')" and "lex m' cs = Inr tr"
  shows "lex m (c # cs) = Inr (es @ tr)"
proof -
  have "lex m ([c] @ cs) = then_lex (lex_prefix m [c]) cs" by (rule lex_append)
  then show ?thesis using assms by (simp add: then_lex_def)
qed

lemma closes_split:
  assumes "closes r"
  shows "\<exists>cl rest t. r = cl # rest \<and> punct cl = Some t \<and> closer t \<and> \<not> json_ws cl"
  using assms
  by (cases r) (auto simp: closes_def punct_def closer_def json_ws_def)

lemma lex_top_closing:
  assumes "punct cl = Some t" and "\<not> json_ws cl" and "lex LTop (cl # rest) = Inr tr"
  shows "\<exists>tk. tr = t # tk \<and> lex LTop rest = Inr tk"
  using assms by (auto simp: emit_Inr)

lemma rtc_lex:
  "lex m s = Inr ts \<Longrightarrow>
     \<exists>ts'. lex m (remove_trailing_commas s) = Inr ts' \<and> map tshape ts' = map tshape (drop_tc ts)"
proof (induction s arbitrary: m ts rule: remove_trailing_commas.induct)
  case 1
  then have "ts = [] \<or> (\<exists>t. ts = [t])"
    by (cases m) (auto simp: emit_Inr)
  then have "drop_tc ts = ts" by auto
  then show ?case using 1 by simp
next
  case (2 c cs)
  let ?r = "dropWhile isspace cs"
  show ?case
  proof (cases "c = CHR '','' \<and> closes ?r")
    case True
    then have c: "c = CHR '',''" and cl: "closes ?r" by simp_all
    have rtc: "remove_trailing_commas (c # cs) = remove_trailing_commas ?r"
      using True by simp
    have cs: "cs = takeWhile isspace cs @ ?r" by simp
    have wsp: "list_all isspace (takeWhile isspace cs)"
      by (simp add: list_all_iff) (meson set_takeWhileD)
    obtain cl0 rest t0 where r: "?r = cl0 # rest" "punct cl0 = Some t0" "closer t0" "\<not> json_ws cl0"
      using closes_split [OF cl] by blast
    have IH: "\<And>m ts. lex m ?r = Inr ts \<Longrightarrow>
                \<exists>ts'. lex m (remove_trailing_commas ?r) = Inr ts' \<and>
                      map tshape ts' = map tshape (drop_tc ts)"
      using "2.IH"(1) True by blast
    show ?thesis
    proof (cases m)
      case LTop
      then obtain tr where tr: "lex LTop cs = Inr tr" "ts = TComma # tr"
        using "2.prems" c by (auto simp: emit_Inr punct_def json_ws_def)
      have "lex LTop (takeWhile isspace cs @ ?r) = Inr tr" using tr(1) by simp
      then have lr: "lex LTop ?r = Inr tr" using lex_top_skip_space [OF wsp] by blast
      then obtain tk where tk: "tr = t0 # tk"
        using lex_top_closing [OF r(2) r(4)] r(1) by metis
      obtain ts' where "lex LTop (remove_trailing_commas ?r) = Inr ts'"
        "map tshape ts' = map tshape (drop_tc tr)"
        using IH [OF lr] by blast
      moreover have "drop_tc ts = drop_tc tr" using tr(2) tk r(3) by simp
      ultimately show ?thesis using rtc LTop by simp
    next
      case (LWord w)
      then obtain tw tr where tr: "word_token (rev w) = Inr tw" "lex LTop cs = Inr tr"
        "ts = tw # TComma # tr"
        using "2.prems" c by (auto simp: emit_Inr punct_def json_ws_def)
      have "lex LTop (takeWhile isspace cs @ ?r) = Inr tr" using tr(2) by simp
      then have lr: "lex LTop ?r = Inr tr" using lex_top_skip_space [OF wsp] by blast
      then obtain tk where tk: "tr = t0 # tk" "lex LTop rest = Inr tk"
        using lex_top_closing [OF r(2) r(4)] r(1) by metis
      have "lex (LWord w) (cl0 # rest) = Inr (tw # tr)"
        using r(2,4) tr(1) tk by (simp add: emit_def)
      then have "lex (LWord w) ?r = Inr (tw # tr)" using r(1) by simp
      then obtain ts' where "lex (LWord w) (remove_trailing_commas ?r) = Inr ts'"
        "map tshape ts' = map tshape (drop_tc (tw # tr))"
        using IH by blast
      moreover have "tw \<noteq> TComma" using word_token_val [OF tr(1)] by auto
      then have "drop_tc ts = drop_tc (tw # tr)"
        using tr(3) tk(1) r(3) by (simp add: drop_tc_keep)
      ultimately show ?thesis using rtc LWord by simp
    next
      case (LStr a)
      then have "lex (LStr (c # a)) cs = Inr ts"
        using "2.prems" c by (auto split: if_splits)
      then have "lex (LStr (c # a)) (takeWhile isspace cs @ ?r) = Inr ts" by simp
      then obtain a' where "lex (LStr a') ?r = Inr ts"
        using lex_str_skip_space [OF wsp] by blast
      then obtain ts0 where ts0: "lex (LStr a) ?r = Inr ts0" "map tshape ts0 = map tshape ts"
        using lex_str_any_acc by blast
      obtain ts' where ts': "lex (LStr a) (remove_trailing_commas ?r) = Inr ts'"
        "map tshape ts' = map tshape (drop_tc ts0)"
        using IH [OF ts0(1)] by blast
      have "map tshape (drop_tc ts0) = map tshape (drop_tc ts)"
        using ts0(2) by (simp add: drop_tc_tshape)
      then show ?thesis using ts' rtc LStr by simp
    next
      case (LEsc a)
      then show ?thesis using "2.prems" c by (simp add: escape_char_def)
    next
      case (LHex a hs)
      then show ?thesis using "2.prems" c by (simp add: is_hex_def is_digit_def code_def)
    qed
  next
    case False
    then have rtc: "remove_trailing_commas (c # cs) = c # remove_trailing_commas cs"
      by auto
    obtain es m' tr where st: "lex_prefix m [c] = Inr (es, m')" "lex m' cs = Inr tr" "ts = es @ tr"
      using lex_one [OF "2.prems"] by blast
    obtain tr' where tr': "lex m' (remove_trailing_commas cs) = Inr tr'"
      "map tshape tr' = map tshape (drop_tc tr)"
      using "2.IH"(2) [OF False st(2)] by blast
    have l: "lex m (c # remove_trailing_commas cs) = Inr (es @ tr')"
      using lex_one_back [OF st(1) tr'(1)] .
    have d: "drop_tc (es @ tr) = es @ drop_tc tr"
    proof (cases "c = CHR '',''")
      case ne: False
      then have "TComma \<notin> set es" using lex_prefix_one [OF st(1)] by simp
      then show ?thesis by (rule drop_tc_append)
    next
      case True
      then have nc: "\<not> closes ?r" using False by simp
      consider "es = []" | es0 where "m' = LTop" "es = es0 @ [TComma]" "TComma \<notin> set es0"
        using lex_prefix_one [OF st(1)] True by blast
      then show ?thesis
      proof cases
        case 1
        then show ?thesis by simp
      next
        case 2
        have "\<And>u tk. tr = u # tk \<Longrightarrow> \<not> closer u"
          using lex_top_closer [of cs] st(2) 2(1) nc by blast
        then have "drop_tc (TComma # tr) = TComma # drop_tc tr" by (rule drop_tc_comma_keep)
        then show ?thesis using 2 drop_tc_append [of es0 "TComma # tr"] by simp
      qed
    qed
    show ?thesis using l d tr'(2) st(3) rtc by simp
  qed
qed

lemma lex_top_skip_ws: "list_all json_ws w \<Longrightarrow> lex LTop (w @ x) = lex LTop x"
  by (induction w) auto

lemma lex_word_delim:
  "json_ws x \<or> punct x \<noteq> None \<Longrightarrow>
     lex (LWord w0) (x # r) = (case word_token (rev w0) of Inl e \<Rightarrow> Inl e
                               | Inr tw \<Rightarrow> (case lex LTop (x # r) of Inl e \<Rightarrow> Inl e
                                            | Inr tr \<Rightarrow> Inr (tw # tr)))"
  by (auto simp: emit_def split: sum.splits option.splits)

lemma trailing_comma_tokens:
  assumes o: "outside_string a" and w: "list_all json_ws w"
    and l: "lex LTop (a @ w @ CHR ''}'' # b) = Inr ts0"
  shows "\<exists>xs tb. ts0 = xs @ TRBrace # tb \<and>
           lex LTop (a @ CHR '','' # w @ CHR ''}'' # b) = Inr (xs @ TComma # TRBrace # tb)"
proof -
  let ?r = "w @ CHR ''}'' # b"
  obtain ta m' where p: "lex_prefix LTop a = Inr (ta, m')" and m': "m' = LTop \<or> (\<exists>w0. m' = LWord w0)"
    using o by (auto simp: outside_string_def split: sum.splits prod.splits lmode.splits)
  have la: "lex LTop (a @ ?r) = then_lex (lex_prefix LTop a) ?r" by (rule lex_append)
  have lc: "lex LTop (a @ CHR '','' # ?r) = then_lex (lex_prefix LTop a) (CHR '','' # ?r)"
    by (rule lex_append)
  from la l p obtain t1 where t1: "lex m' ?r = Inr t1" "ts0 = ta @ t1"
    by (auto simp: then_lex_def split: sum.splits)
  have top: "lex LTop ?r = emit (Inr TRBrace) (lex LTop b)"
    using lex_top_skip_ws [OF w, of "CHR ''}'' # b"] by (simp add: punct_def json_ws_def)
  obtain x r' where xr: "?r = x # r'" "json_ws x \<or> punct x \<noteq> None"
    using w by (cases w) (auto simp: punct_def)
  from m' show ?thesis
  proof
    assume mt: "m' = LTop"
    then obtain tb where tb: "lex LTop b = Inr tb" "t1 = TRBrace # tb"
      using t1(1) top by (auto simp: emit_Inr)
    have "lex LTop (CHR '','' # ?r) = Inr (TComma # TRBrace # tb)"
      using top tb(1) by (simp add: punct_def json_ws_def emit_def)
    then have "lex LTop (a @ CHR '','' # ?r) = Inr (ta @ TComma # TRBrace # tb)"
      using lc p mt by (simp add: then_lex_def)
    then show ?thesis using t1(2) tb(2) by blast
  next
    assume "\<exists>w0. m' = LWord w0"
    then obtain w0 where mw: "m' = LWord w0" by blast
    have "lex (LWord w0) (x # r') = Inr t1" using t1(1) mw xr(1) by simp
    then obtain tw tr where tw: "word_token (rev w0) = Inr tw" "lex LTop (x # r') = Inr tr"
      "t1 = tw # tr"
      using lex_word_delim [OF xr(2), of w0 r'] by (auto split: sum.splits)
    have "lex LTop ?r = Inr tr" unfolding xr(1) by (rule tw(2))
    then have "emit (Inr TRBrace) (lex LTop b) = Inr tr" using top by simp
    then obtain tb where tb: "lex LTop b = Inr tb" "tr = TRBrace # tb"
      by (auto simp: emit_Inr)
    have "lex (LWord w0) (CHR '','' # ?r) = Inr (tw # TComma # TRBrace # tb)"
      using tw(1) top tb(1) by (simp add: punct_def json_ws_def emit_def)
    then have "lex LTop (a @ CHR '','' # ?r) = Inr ((ta @ [tw]) @ TComma # TRBrace # tb)"
      using lc p mw by (simp add: then_lex_def)
    moreover have "ts0 = (ta @ [tw]) @ TRBrace # tb" using t1(2) tw(3) tb(2) by simp
    ultimately show ?thesis by blast
  qed
qed

lemma trailing_comma_repaired:
  assumes "outside_string a" and "list_all json_ws w"
    and "json_loads (a @ w @ CHR ''}'' # b) = Inr v0"
  shows "json_loads (a @ CHR '','' # w @ CHR ''}'' # b) = Inl JSONDecodeError \<and>
         (\<exists>v'. json_loads (remove_trailing_commas (a @ CHR '','' # w @ CHR ''}'' # b)) = Inr v')"
proof -
  let ?s = "a @ CHR '','' # w @ CHR ''}'' # b"
  obtain ts0 where l0: "lex LTop (a @ w @ CHR ''}'' # b) = Inr ts0"
    and p0: "prun ([], EValue) ts0 = Inr v0"
    using assms(3) by (auto simp: json_loads_def split: sum.splits)
  obtain xs tb where t: "ts0 = xs @ TRBrace # tb"
    "lex LTop ?s = Inr (xs @ TComma # TRBrace # tb)"
    using trailing_comma_tokens [OF assms(1,2) l0] by blast
  have "prun ([], EValue) (xs @ TComma # TRBrace # tb) = Inl JSONDecodeError"
    by (rule prun_comma_closer) (simp add: closer_def)
  then have A: "json_loads ?s = Inl JSONDecodeError"
    using t(2) by (simp add: json_loads_def)
  obtain ts' where ts': "lex LTop (remove_trailing_commas ?s) = Inr ts'"
    "map tshape ts' = map tshape (drop_tc (xs @ TComma # TRBrace # tb))"
    using rtc_lex [OF t(2)] by blast
  have "no_tc (xs @ TRBrace # tb)" using prun_no_tc p0 t(1) by blast
  then have "drop_tc (xs @ TComma # TRBrace # tb) = ts0"
    using drop_tc_inserted t(1) by simp
  then have "map tshape ts0 = map tshape ts'" using ts'(2) by simp
  then obtain v' where "prun ([], EValue) ts' = Inr v'"
    using prun_same_shape p0 by blast
  then have "json_loads (remove_trailing_commas ?s) = Inr v'"
    using ts'(1) by (simp add: json_loads_def)
  then show ?thesis using A by blast
qed

text \<open>
  C7: \<open>try_load\<close> returns the result of the first strategy that succeeds, in the order
  strict parse, parse after the removal of trailing commas, parse after the removal and
  the replacement of every single quote by a double quote; it fails only when all three
  fail. In particular, take a text that is valid JSON and put one comma, outside any
  string literal, before a closing brace (white space may stand in between): the strict
  parse of the result fails, the parse after the removal of trailing commas succeeds,
  and that is what \<open>try_load\<close> returns.
\<close>

theorem repair_layer:
  "(json_loads s = Inr v \<longrightarrow> try_load s = Inr v) \<and>
   (json_loads s = Inl e \<and> json_loads (remove_trailing_commas s) = Inr v \<longrightarrow> try_load s = Inr v) \<and>
   (json_loads s = Inl e \<and> json_loads (remove_trailing_commas s) = Inl e' \<longrightarrow>
      try_load s = json_loads (replace (remove_trailing_commas s) [CHR 0x27] [CHR 0x22])) \<and>
   ((\<exists>x. try_load s = Inl x) \<longleftrightarrow>
      (\<exists>x. json_loads s = Inl x) \<and> (\<exists>x. json_loads (remove_trailing_commas s) = Inl x) \<and>
      (\<exists>x. json_loads (replace (remove_trailing_commas s) [CHR 0x27] [CHR 0x22]) = Inl x)) \<and>
   (outside_string a \<and> list_all json_ws w \<and> json_loads (a @ w @ CHR ''}'' # b) = Inr v0 \<longrightarrow>
      json_loads (a @ CHR '','' # w @ CHR ''}'' # b) = Inl JSONDecodeError \<and>
      (\<exists>v'. json_loads (remove_trailing_commas (a @ CHR '','' # w @ CHR ''}'' # b)) = Inr v' \<and>
            try_load (a @ CHR '','' # w @ CHR ''}'' # b) = Inr v'))"
proof -
  have 1: "json_loads s = Inr v \<longrightarrow> try_load s = Inr v"
    by (simp add: try_load_def)
  have 2: "json_loads s = Inl e \<and> json_loads (remove_trailing_commas s) = Inr v \<longrightarrow>
             try_load s = Inr v"
    by (simp add: try_load_def Let_def)
  have 3: "json_loads s = Inl e \<and> json_loads (remove_trailing_commas s) = Inl e' \<longrightarrow>
      try_load s = json_loads (replace (remove_trailing_commas s) [CHR 0x27] [CHR 0x22])"
    by (simp add: try_load_def Let_def)
  have 4: "(\<exists>x. try_load s = Inl x) \<longleftrightarrow>
      (\<exists>x. json_loads s = Inl x) \<and> (\<exists>x. json_loads (remove_trailing_commas s) = Inl x) \<and>
      (\<exists>x. json_loads (replace (remove_trailing_commas s) [CHR 0x27] [CHR 0x22]) = Inl x)"
    by (cases "json_loads s"; cases "json_loads (remove_trailing_commas s)")
       (simp_all add: try_load_def Let_def)
  have 5: "outside_string a \<and> list_all json_ws w \<and> json_loads (a @ w @ CHR ''}'' # b) = Inr v0 \<longrightarrow>
      json_loads (a @ CHR '','' # w @ CHR ''}'' # b) = Inl JSONDecodeError \<and>
      (\<exists>v'. json_loads (remove_trailing_commas (a @ CHR '','' # w @ CHR ''}'' # b)) = Inr v' \<and>
            try_load (a @ CHR '','' # w @ CHR ''}'' # b) = Inr v')"
  proof
    assume h: "outside_string a \<and> list_all json_ws w \<and> json_loads (a @ w @ CHR ''}'' # b) = Inr v0"
    let ?s = "a @ CHR '','' # w @ CHR ''}'' # b"
    from h trailing_comma_repaired [of a w b v0]
    obtain v' where r: "json_loads ?s = Inl JSONDecodeError"
      "json_loads (remove_trailing_commas ?s) = Inr v'"
      by blast
    then have "try_load ?s = Inr v'" by (simp add: try_load_def Let_def)
    then show "json_loads ?s = Inl JSONDecodeError \<and>
      (\<exists>v'. json_loads (remove_trailing_commas ?s) = Inr v' \<and> try_load ?s = Inr v')"
      using r by blast
  qed
  from 1 2 3 4 5 show ?thesis by blast
qed

lemma sample_trailing_split:
  \<open>sample_trailing = ''{"a": [1, 2], "b": ",}" '' @ CHR '','' # '' '' @ CHR ''}'' # []\<close>
  by (simp add: sample_trailing_def)

lemma sample_trailing_outside: \<open>outside_string ''{"a": [1, 2], "b": ",}" ''\<close>
  by code_simp

lemma sample_trailing_valid:
  \<open>json_loads (''{"a": [1, 2], "b": ",}" '' @ '' '' @ CHR ''}'' # []) =
     Inr (JObj [(''a'', JArr [JInt 1, JInt 2]), (''b'', JStr '',}'')])\<close>
  by code_simp

lemma sample_trailing_repaired:
  "json_loads (remove_trailing_commas sample_trailing) =
     Inr (JObj [(''a'', JArr [JInt 1, JInt 2]), (''b'', JStr ''}'')])"
  by code_simp

lemma sample_quotes_runs:
  "json_loads sample_quotes = Inl JSONDecodeError"
  "json_loads (remove_trailing_commas sample_quotes) = Inl JSONDecodeError"
  "json_loads (replace (remove_trailing_commas sample_quotes) [CHR 0x27] [CHR 0x22]) =
     Inr (JObj [(''a'', JInt 1)])"
  by code_simp+

lemma strict_ok: "json_loads ''[1, 2]'' = Inr (JArr [JInt 1, JInt 2])"
  by code_simp

theorem repair_layer_witness:
  "try_load ''[1, 2]'' = Inr (JArr [JInt 1, JInt 2]) \<and>
   json_loads sample_trailing = Inl JSONDecodeError \<and>
   try_load sample_trailing = Inr (JObj [(''a'', JArr [JInt 1, JInt 2]), (''b'', JStr ''}'')]) \<and>
   json_loads sample_quotes = Inl JSONDecodeError \<and>
   json_loads (remove_trailing_commas sample_quotes) = Inl JSONDecodeError \<and>
   try_load sample_quotes = Inr (JObj [(''a'', JInt 1)])"
proof -
  have w: "list_all json_ws '' ''" by (simp add: json_ws_def)
  have a: "try_load ''[1, 2]'' = Inr (JArr [JInt 1, JInt 2])"
    using repair_layer [of "''[1, 2]''" "JArr [JInt 1, JInt 2]"] strict_ok by blast
  have b: "json_loads sample_trailing = Inl JSONDecodeError \<and>
           (\<exists>v'. json_loads (remove_trailing_commas sample_trailing) = Inr v' \<and>
                 try_load sample_trailing = Inr v')"
    unfolding sample_trailing_split
    using repair_layer [where a = \<open>''{"a": [1, 2], "b": ",}" ''\<close> and w = "'' ''" and b = "[]"]
      sample_trailing_outside w sample_trailing_valid
    by blast
  then have b': "try_load sample_trailing = Inr (JObj [(''a'', JArr [JInt 1, JInt 2]), (''b'', JStr ''}'')])"
    using sample_trailing_repaired by auto
  have c: "try_load sample_quotes = Inr (JObj [(''a'', JInt 1)])"
    using repair_layer [of sample_quotes _ JSONDecodeError JSONDecodeError] sample_quotes_runs
    by metis
  show ?thesis using a b b' c sample_quotes_runs by blast
qed

end
